theory Spec2Isabelle
  imports Main "HOL-Library.AList" "HOL-Library.Multiset" "HOL-Library.Sublist"
begin

section \<open>Bookmark-Tool: shared data model\<close>

text \<open>
  A Python \<open>str\<close> is a sequence of Unicode code points. It is modelled as a list of
  natural numbers, one per code point, so that lengths, indices and slices count what
  Python counts. \<open>cp\<close> is the code point of an ASCII character and \<open>str\<close> the Python
  string of an ASCII literal; they are used to write the constants of the scripts.

  A bookmark is the pair \<open>(url, title)\<close>. The comparison key is the bare URL in mode
  \<open>'url'\<close> and the tuple \<open>(url, title)\<close> otherwise: a Python value that is either a
  \<open>str\<close> or a 2-tuple.
\<close>

type_synonym pystr = "nat list"

definition cp :: "char \<Rightarrow> nat" where
  "cp c = of_char c"

definition str :: "string \<Rightarrow> pystr" where
  "str s = map cp s"

type_synonym bookmark = "pystr \<times> pystr"

datatype bookmark_key = Url pystr | UrlTitle pystr pystr


section \<open>deduplicate\_bookmarks.py: the first-seen loop\<close>

text \<open>
  \<open>processed_items\<close> is a Python dict, which keeps its keys in insertion order; the
  report sorts \<open>duplicate_groups.items()\<close> with a stable sort, so the order is part of
  the behaviour. The dict is an association list: \<open>map_of\<close> is the lookup,
  \<open>AList.update\<close> overwrites a present key in place and appends an absent one.
\<close>

record group =
  original :: bookmark
  removed :: "bookmark list"

type_synonym processed_items = "(bookmark_key \<times> group) list"

text \<open>One iteration of \<open>for url, title in all_bookmarks\<close>, for the key already computed.\<close>

definition dedup_step ::
  "(bookmark \<Rightarrow> bookmark_key) \<Rightarrow> bookmark list \<times> processed_items \<Rightarrow> bookmark
     \<Rightarrow> bookmark list \<times> processed_items" where
  "dedup_step keyf st item =
     (let unique_bookmarks = fst st; processed = snd st; key = keyf item
      in case map_of processed key of
           None \<Rightarrow>
             (unique_bookmarks @ [item],
              AList.update key \<lparr>original = item, removed = []\<rparr> processed)
         | Some g \<Rightarrow>
             (unique_bookmarks,
              AList.update key (g\<lparr>removed := removed g @ [item]\<rparr>) processed))"

definition dedup_loop ::
  "(bookmark \<Rightarrow> bookmark_key) \<Rightarrow> bookmark list \<Rightarrow> bookmark list \<times> processed_items" where
  "dedup_loop keyf all_bookmarks = foldl (dedup_step keyf) ([], []) all_bookmarks"

text \<open>\<open>{k: v for k, v in processed_items.items() if v['removed']}\<close>\<close>

definition duplicate_groups :: "processed_items \<Rightarrow> processed_items" where
  "duplicate_groups processed = filter (\<lambda>kv. removed (snd kv) \<noteq> []) processed"

text \<open>\<open>key = url if mode == 'url' else (url, title)\<close> of deduplicate\_bookmarks.py.\<close>

definition plain_key :: "pystr \<Rightarrow> bookmark \<Rightarrow> bookmark_key" where
  "plain_key mode item =
     (if mode = str ''url'' then Url (fst item) else UrlTitle (fst item) (snd item))"

record dedup_result =
  unique_bookmarks :: "bookmark list"
  processed :: processed_items
  groups :: processed_items
  total_removed_items :: int

text \<open>
  \<open>deduplicate_and_generate_report\<close> of deduplicate\_bookmarks.py, from the parsed list
  on (reading the file and writing the report are outside the model).
\<close>

definition deduplicate :: "pystr \<Rightarrow> bookmark list \<Rightarrow> dedup_result" where
  "deduplicate mode all_bookmarks =
     (let st = dedup_loop (plain_key mode) all_bookmarks;
          dg = duplicate_groups (snd st)
      in \<lparr>unique_bookmarks = fst st, processed = snd st, groups = dg,
          total_removed_items = int (sum_list (map (\<lambda>kv. length (removed (snd kv))) dg))\<rparr>)"

text \<open>
  \<open>sorted(duplicate_groups.items(), key=lambda item: len(item[1]['removed']),
  reverse=True)\<close>. Python's sort is stable and \<open>reverse=True\<close> keeps the stability:
  items with equal keys stay in their original order. That is the stable sort on the
  negated count.
\<close>

definition sorted_groups :: "processed_items \<Rightarrow> processed_items" where
  "sorted_groups dg = sort_key (\<lambda>item. - int (length (removed (snd item)))) dg"

text \<open>Position of the first bookmark of \<open>xs\<close> whose key is \<open>k\<close> (\<open>length xs\<close> if none).\<close>

definition first_index :: "(bookmark \<Rightarrow> bookmark_key) \<Rightarrow> bookmark list \<Rightarrow> bookmark_key \<Rightarrow> nat" where
  "first_index keyf xs k = length (takeWhile (\<lambda>e. keyf e \<noteq> k) xs)"


section \<open>Python string operations used by the scripts\<close>

text \<open>
  \<open>str.isspace\<close>, which is also the white space that \<open>str.strip()\<close> removes and that
  \<open>\s\<close> matches in a \<open>str\<close> pattern: the code points U+0009..U+000D, U+001C..U+0020,
  U+0085, U+00A0, U+1680, U+2000..U+200A, U+2028, U+2029, U+202F, U+205F and U+3000.
\<close>

definition isspace :: "nat \<Rightarrow> bool" where
  "isspace c =
     ((0x9 \<le> c \<and> c \<le> 0xD) \<or> (0x1C \<le> c \<and> c \<le> 0x20) \<or> c = 0x85 \<or> c = 0xA0
      \<or> c = 0x1680 \<or> (0x2000 \<le> c \<and> c \<le> 0x200A) \<or> c = 0x2028 \<or> c = 0x2029
      \<or> c = 0x202F \<or> c = 0x205F \<or> c = 0x3000)"

definition strip :: "pystr \<Rightarrow> pystr" where
  "strip s = rev (dropWhile isspace (rev (dropWhile isspace s)))"

text \<open>\<open>s.rstrip(chars)\<close>: drops every trailing character that is in \<open>chars\<close>.\<close>

definition rstrip :: "pystr \<Rightarrow> pystr \<Rightarrow> pystr" where
  "rstrip s chars = rev (dropWhile (\<lambda>c. c \<in> set chars) (rev s))"

definition startswith :: "pystr \<Rightarrow> pystr \<Rightarrow> bool" where
  "startswith s p = (take (length p) s = p)"

text \<open>\<open>s.startswith((p1, p2, ...))\<close> with a tuple of prefixes.\<close>

definition startswith_any :: "pystr \<Rightarrow> pystr list \<Rightarrow> bool" where
  "startswith_any s ps = list_ex (startswith s) ps"

text \<open>\<open>s.find(sub)\<close>: the lowest index where \<open>sub\<close> occurs, or \<open>-1\<close>.\<close>

fun find_sub :: "pystr \<Rightarrow> pystr \<Rightarrow> nat \<Rightarrow> int" where
  "find_sub sub [] i = (if sub = [] then int i else - 1)"
| "find_sub sub (x # xs) i =
     (if startswith (x # xs) sub then int i else find_sub sub xs (Suc i))"

definition py_find :: "pystr \<Rightarrow> pystr \<Rightarrow> int" where
  "py_find s sub = find_sub sub s 0"

text \<open>
  \<open>s[k:]\<close>: a negative start counts from the end, and a start outside the string is
  clamped, so the slice never raises.
\<close>

definition slice_from :: "pystr \<Rightarrow> int \<Rightarrow> pystr" where
  "slice_from s k = (if k < 0 then drop (nat (int (length s) + k)) s else drop (nat k) s)"


section \<open>The regular expressions of the scripts\<close>

text \<open>
  The patterns the scripts compile are sequences of single-character classes, each
  taken once or under \<open>?\<close>, \<open>*\<close>, \<open>+\<close> or the lazy \<open>*?\<close>, with capture groups around
  some of them. \<open>rx_match\<close> is the backtracking matcher of Python's \<open>re\<close> on such a
  sequence: it tries the alternatives of every quantifier in priority order (greedy:
  longest first; lazy: shortest first) with the rest of the pattern as continuation,
  and returns the first success. \<open>Mark\<close> stands for a group's parenthesis: the matcher
  records the text still unread there, from which the captured text is recovered.
\<close>

record flags =
  ignorecase :: bool
  dotall :: bool

datatype cls = Lit nat | Dot | Space | OneOf pystr | NoneOf pystr

datatype item = One cls | Opt cls | Star cls | Plus cls | LazyStar cls | Mark

text \<open>
  Under \<open>re.IGNORECASE\<close> a character of the text matches a literal of the pattern when
  the two are equal up to case. For the ASCII literals, which are all the scripts use,
  these are the two cases of the letter and, for \<open>i\<close>, \<open>s\<close> and \<open>k\<close>, also U+0130 and
  U+0131, U+017F, and U+212A: the characters that \<open>re_fold\<close> sends to the letter.
\<close>

definition re_fold :: "nat \<Rightarrow> nat" where
  "re_fold c =
     (if 0x41 \<le> c \<and> c \<le> 0x5A then c + 0x20
      else if c = 0x130 \<or> c = 0x131 then 0x69
      else if c = 0x17F then 0x73
      else if c = 0x212A then 0x6B
      else c)"

fun cls_match :: "flags \<Rightarrow> cls \<Rightarrow> nat \<Rightarrow> bool" where
  "cls_match fl (Lit a) x = (if ignorecase fl then re_fold x = re_fold a else x = a)"
| "cls_match fl Dot x = (dotall fl \<or> x \<noteq> 0xA)"
| "cls_match fl Space x = isspace x"
| "cls_match fl (OneOf cs) x =
     (if ignorecase fl then re_fold x \<in> set (map re_fold cs) else x \<in> set cs)"
| "cls_match fl (NoneOf cs) x =
     (if ignorecase fl then re_fold x \<notin> set (map re_fold cs) else x \<notin> set cs)"

fun rx_match :: "flags \<Rightarrow> item list \<Rightarrow> pystr \<Rightarrow> (pystr list \<times> pystr) option" where
  "rx_match fl [] s = Some ([], s)"
| "rx_match fl (Mark # r) s =
     (case rx_match fl r s of None \<Rightarrow> None | Some (ms, rest) \<Rightarrow> Some (s # ms, rest))"
| "rx_match fl (One c # r) [] = None"
| "rx_match fl (One c # r) (x # xs) = (if cls_match fl c x then rx_match fl r xs else None)"
| "rx_match fl (Opt c # r) [] = rx_match fl r []"
| "rx_match fl (Opt c # r) (x # xs) =
     (if cls_match fl c x
      then (case rx_match fl r xs of Some m \<Rightarrow> Some m | None \<Rightarrow> rx_match fl r (x # xs))
      else rx_match fl r (x # xs))"
| "rx_match fl (Star c # r) [] = rx_match fl r []"
| "rx_match fl (Star c # r) (x # xs) =
     (if cls_match fl c x
      then (case rx_match fl (Star c # r) xs of
              Some m \<Rightarrow> Some m
            | None \<Rightarrow> rx_match fl r (x # xs))
      else rx_match fl r (x # xs))"
| "rx_match fl (Plus c # r) [] = None"
| "rx_match fl (Plus c # r) (x # xs) =
     (if cls_match fl c x then rx_match fl (Star c # r) xs else None)"
| "rx_match fl (LazyStar c # r) [] = rx_match fl r []"
| "rx_match fl (LazyStar c # r) (x # xs) =
     (case rx_match fl r (x # xs) of
        Some m \<Rightarrow> Some m
      | None \<Rightarrow> (if cls_match fl c x then rx_match fl (LazyStar c # r) xs else None))"

text \<open>The groups of a match: the text between the marks, two marks per group.\<close>

fun captures :: "pystr list \<Rightarrow> pystr list" where
  "captures (a # b # ms) = take (length a - length b) a # captures ms"
| "captures ms = []"

text \<open>
  \<open>pattern.findall(content)\<close>: scan from the left; at each position try the pattern;
  after a match go on behind it, otherwise one character further. \<open>skip\<close> is the
  number of characters of the last match still to be passed. Every pattern of the
  scripts starts with a literal \<open><\<close>, so no match is empty.
\<close>

fun findall_from :: "flags \<Rightarrow> item list \<Rightarrow> nat \<Rightarrow> pystr \<Rightarrow> pystr list list" where
  "findall_from fl pat skip [] = []"
| "findall_from fl pat (Suc skip) (x # xs) = findall_from fl pat skip xs"
| "findall_from fl pat 0 (x # xs) =
     (case rx_match fl pat (x # xs) of
        None \<Rightarrow> findall_from fl pat 0 xs
      | Some (ms, rest) \<Rightarrow>
          captures ms # findall_from fl pat (length xs - length rest) xs)"

definition findall :: "flags \<Rightarrow> item list \<Rightarrow> pystr \<Rightarrow> pystr list list" where
  "findall fl pat content = findall_from fl pat 0 content"

text \<open>\<open>re.sub(pattern, '', s)\<close>: the text with every match removed.\<close>

fun sub_from :: "flags \<Rightarrow> item list \<Rightarrow> nat \<Rightarrow> pystr \<Rightarrow> pystr" where
  "sub_from fl pat skip [] = []"
| "sub_from fl pat (Suc skip) (x # xs) = sub_from fl pat skip xs"
| "sub_from fl pat 0 (x # xs) =
     (case rx_match fl pat (x # xs) of
        None \<Rightarrow> x # sub_from fl pat 0 xs
      | Some (ms, rest) \<Rightarrow> sub_from fl pat (length xs - length rest) xs)"

definition re_sub_empty :: "flags \<Rightarrow> item list \<Rightarrow> pystr \<Rightarrow> pystr" where
  "re_sub_empty fl pat s = sub_from fl pat 0 s"

text \<open>
  \<open>re.sub('^' + pattern, '', s)\<close> without \<open>re.MULTILINE\<close>: \<open>^\<close> holds at index 0 only, so
  the one possible match is the one at the start of the text.
\<close>

definition re_sub_empty_at_start :: "flags \<Rightarrow> item list \<Rightarrow> pystr \<Rightarrow> pystr" where
  "re_sub_empty_at_start fl pat s =
     (case rx_match fl pat s of None \<Rightarrow> s | Some (ms, rest) \<Rightarrow> rest)"

definition lits :: "pystr \<Rightarrow> item list" where
  "lits s = map (\<lambda>c. One (Lit c)) s"

definition quote_class :: cls where
  "quote_class = OneOf [0x22, 0x27]"

text \<open>\<open><a\s+[^>]*href=["\'](.*?)["\']\<close>\<close>

definition url_pattern :: "item list" where
  "url_pattern =
     lits (str ''<a'') @ [Plus Space, Star (NoneOf (str ''>''))] @ lits (str ''href='') @
     [One quote_class, Mark, LazyStar Dot, Mark, One quote_class]"

text \<open>\<open><a\s+[^>]*href=["\'](.*?)["\'][^>]*>(.*?)</a>\<close>\<close>

definition bookmark_pattern :: "item list" where
  "bookmark_pattern =
     lits (str ''<a'') @ [Plus Space, Star (NoneOf (str ''>''))] @ lits (str ''href='') @
     [One quote_class, Mark, LazyStar Dot, Mark, One quote_class] @
     [Star (NoneOf (str ''>'')), One (Lit (cp CHR ''>'')), Mark, LazyStar Dot, Mark] @ lits (str ''</a>'')"

text \<open>\<open><h3[^>]*>(.*?)</h3>\<close>\<close>

definition folder_pattern :: "item list" where
  "folder_pattern =
     lits (str ''<h3'') @ [Star (NoneOf (str ''>'')), One (Lit (cp CHR ''>'')), Mark, LazyStar Dot, Mark] @
     lits (str ''</h3>'')"

text \<open>\<open><.*?>\<close>\<close>

definition tag_pattern :: "item list" where
  "tag_pattern = [One (Lit (cp CHR ''<'')), LazyStar Dot, One (Lit (cp CHR ''>''))]"

text \<open>\<open>https?://\<close>, the pattern of \<open>normalize_url\<close> behind its \<open>^\<close>.\<close>

definition scheme_pattern :: "item list" where
  "scheme_pattern = lits (str ''http'') @ [Opt (Lit (cp CHR ''s''))] @ lits (str ''://'')"

definition no_flags :: flags where
  "no_flags = \<lparr>ignorecase = False, dotall = False\<rparr>"

definition IGNORECASE :: flags where
  "IGNORECASE = \<lparr>ignorecase = True, dotall = False\<rparr>"


section \<open>The robust variant of deduplicate\_bookmarks.py: normalisation and the first-seen loop\<close>

definition normalize_url :: "pystr \<Rightarrow> bool \<Rightarrow> bool \<Rightarrow> pystr" where
  "normalize_url url strict_protocol ignore_slash =
     (let url1 = (if \<not> strict_protocol
                  then re_sub_empty_at_start no_flags scheme_pattern url else url)
      in if ignore_slash
         then (if cp CHR ''/'' \<in> set (slice_from url1 (py_find url1 (str ''://'') + 3))
               then rstrip url1 (str ''/'') else url1)
         else url1)"

text \<open>
  \<open>normalized_url_key = normalize_url(url, strict_protocol, ignore_slash)\<close>;
  \<open>key = normalized_url_key if mode == 'url' else (normalized_url_key, title)\<close>
\<close>

definition normalized_key :: "pystr \<Rightarrow> bool \<Rightarrow> bool \<Rightarrow> bookmark \<Rightarrow> bookmark_key" where
  "normalized_key mode strict_protocol ignore_slash item =
     (let normalized_url_key = normalize_url (fst item) strict_protocol ignore_slash
      in if mode = str ''url'' then Url normalized_url_key
         else UrlTitle normalized_url_key (snd item))"

record robust_result = dedup_result +
  total_bookmarks_count :: int
  remaining_bookmarks_count :: int

definition deduplicate_robust ::
  "pystr \<Rightarrow> bool \<Rightarrow> bool \<Rightarrow> bookmark list \<Rightarrow> robust_result" where
  "deduplicate_robust mode strict_protocol ignore_slash all_bookmarks =
     (let total = int (length all_bookmarks);
          st = dedup_loop (normalized_key mode strict_protocol ignore_slash) all_bookmarks;
          remaining = int (length (fst st))
      in \<lparr>unique_bookmarks = fst st, processed = snd st,
          groups = duplicate_groups (snd st),
          total_removed_items = total - remaining,
          total_bookmarks_count = total, remaining_bookmarks_count = remaining\<rparr>)"


section \<open>The streaming parsers (class BookmarkParser)\<close>

text \<open>
  \<open>HTMLParser.feed\<close> of the standard library tokenises the text and calls the handlers
  of the subclass; the model starts at these calls. Tag names arrive in lower case. An
  attribute written without a value arrives with the value \<open>None\<close>.
\<close>

datatype event =
    StartTag pystr "(pystr \<times> pystr option) list"
  | Data pystr
  | EndTag pystr

record parser =
  mode :: pystr
  filter_enabled :: bool
  decode_enabled :: bool
  bookmarks :: "bookmark_key list"
  folders :: "pystr set"
  total_folder_counter :: int
  is_in_a_tag :: bool
  is_in_h3_tag :: bool
  current_url :: "pystr option"
  current_title :: pystr
  current_folder :: pystr

definition init_parser :: "pystr \<Rightarrow> bool \<Rightarrow> bool \<Rightarrow> parser" where
  "init_parser md fe de =
     \<lparr>mode = md, filter_enabled = fe, decode_enabled = de,
      bookmarks = [], folders = {}, total_folder_counter = 0,
      is_in_a_tag = False, is_in_h3_tag = False,
      current_url = Some [], current_title = [], current_folder = []\<rparr>"

text \<open>
  \<open>dict(attrs).get('href', '')\<close>: in \<open>dict(attrs)\<close> the last pair of a repeated name
  wins; an absent name gives \<open>''\<close>, a name without value gives \<open>None\<close>.
\<close>

definition get_href :: "(pystr \<times> pystr option) list \<Rightarrow> pystr option" where
  "get_href attrs = (case map_of (rev attrs) (str ''href'') of None \<Rightarrow> Some [] | Some v \<Rightarrow> v)"

definition handle_starttag :: "parser \<Rightarrow> pystr \<Rightarrow> (pystr \<times> pystr option) list \<Rightarrow> parser" where
  "handle_starttag p tag attrs =
     (if tag = str ''a'' then p\<lparr>is_in_a_tag := True, current_url := get_href attrs\<rparr>
      else if tag = str ''h3'' then p\<lparr>is_in_h3_tag := True\<rparr>
      else p)"

definition handle_data :: "parser \<Rightarrow> pystr \<Rightarrow> parser" where
  "handle_data p data =
     (if is_in_a_tag p then p\<lparr>current_title := current_title p @ data\<rparr>
      else if is_in_h3_tag p then p\<lparr>current_folder := current_folder p @ data\<rparr>
      else p)"

text \<open>
  \<open>normalized_url.lower().startswith(('http', 'https', 'ftp'))\<close>; \<open>lower\<close> is
  \<open>str.lower\<close>, whose table of the Unicode standard is a parameter of the model.
\<close>

definition allowed_protocol :: "(pystr \<Rightarrow> pystr) \<Rightarrow> pystr \<Rightarrow> bool" where
  "allowed_protocol lower normalized_url =
     startswith_any (lower normalized_url) [str ''http'', str ''https'', str ''ftp'']"

text \<open>
  The body of \<open>if self.current_url:\<close> in \<open>handle_endtag\<close>; \<open>unquote\<close> is
  \<open>urllib.parse.unquote\<close> of the standard library, a parameter of the model.
\<close>

definition add_bookmark ::
  "(pystr \<Rightarrow> pystr) \<Rightarrow> (pystr \<Rightarrow> pystr) \<Rightarrow> parser \<Rightarrow> pystr \<Rightarrow> parser" where
  "add_bookmark unquote lower p url =
     (let normalized_url = (if decode_enabled p then unquote url else url);
          should_add = (if filter_enabled p
                        then (if \<not> allowed_protocol lower normalized_url then False else True)
                        else True)
      in if should_add
         then (let clean_title = strip (current_title p)
               in if mode p = str ''url''
                  then p\<lparr>bookmarks := bookmarks p @ [Url normalized_url]\<rparr>
                  else if mode p = str ''url-title''
                  then p\<lparr>bookmarks := bookmarks p @ [UrlTitle normalized_url clean_title]\<rparr>
                  else p)
         else p)"

text \<open>The branch \<open>if tag == 'a'\<close> of \<open>handle_endtag\<close>, the same in both scripts.\<close>

definition end_anchor ::
  "(pystr \<Rightarrow> pystr) \<Rightarrow> (pystr \<Rightarrow> pystr) \<Rightarrow> parser \<Rightarrow> parser" where
  "end_anchor unquote lower p =
     (let p1 = (case current_url p of
                  None \<Rightarrow> p
                | Some url \<Rightarrow> if url \<noteq> [] then add_bookmark unquote lower p url else p)
      in p1\<lparr>is_in_a_tag := False, current_url := Some [], current_title := []\<rparr>)"

text \<open>\<open>handle_endtag\<close> of the two-file script: the folder name is added as it is.\<close>

definition handle_endtag ::
  "(pystr \<Rightarrow> pystr) \<Rightarrow> (pystr \<Rightarrow> pystr) \<Rightarrow> parser \<Rightarrow> pystr \<Rightarrow> parser" where
  "handle_endtag unquote lower p tag =
     (if tag = str ''a'' then end_anchor unquote lower p
      else if tag = str ''h3''
      then p\<lparr>total_folder_counter := total_folder_counter p + 1,
             folders := insert (strip (current_folder p)) (folders p),
             is_in_h3_tag := False, current_folder := []\<rparr>
      else p)"

text \<open>\<open>handle_endtag\<close> of the multi-file script: \<open>if folder_name:\<close> guards the insertion.\<close>

definition handle_endtag_multi ::
  "(pystr \<Rightarrow> pystr) \<Rightarrow> (pystr \<Rightarrow> pystr) \<Rightarrow> parser \<Rightarrow> pystr \<Rightarrow> parser" where
  "handle_endtag_multi unquote lower p tag =
     (if tag = str ''a'' then end_anchor unquote lower p
      else if tag = str ''h3''
      then (let folder_name = strip (current_folder p);
                p1 = p\<lparr>total_folder_counter := total_folder_counter p + 1\<rparr>;
                p2 = (if folder_name \<noteq> []
                      then p1\<lparr>folders := insert folder_name (folders p1)\<rparr> else p1)
            in p2\<lparr>is_in_h3_tag := False, current_folder := []\<rparr>)
      else p)"

fun dispatch ::
  "(pystr \<Rightarrow> pystr) \<Rightarrow> (pystr \<Rightarrow> pystr) \<Rightarrow> parser \<Rightarrow> event \<Rightarrow> parser" where
  "dispatch unquote lower p (StartTag tag attrs) = handle_starttag p tag attrs"
| "dispatch unquote lower p (Data d) = handle_data p d"
| "dispatch unquote lower p (EndTag tag) = handle_endtag unquote lower p tag"

fun dispatch_multi ::
  "(pystr \<Rightarrow> pystr) \<Rightarrow> (pystr \<Rightarrow> pystr) \<Rightarrow> parser \<Rightarrow> event \<Rightarrow> parser" where
  "dispatch_multi unquote lower p (StartTag tag attrs) = handle_starttag p tag attrs"
| "dispatch_multi unquote lower p (Data d) = handle_data p d"
| "dispatch_multi unquote lower p (EndTag tag) = handle_endtag_multi unquote lower p tag"

definition feed ::
  "(pystr \<Rightarrow> pystr) \<Rightarrow> (pystr \<Rightarrow> pystr) \<Rightarrow> parser \<Rightarrow> event list \<Rightarrow> parser" where
  "feed unquote lower p evs = foldl (dispatch unquote lower) p evs"

definition feed_multi ::
  "(pystr \<Rightarrow> pystr) \<Rightarrow> (pystr \<Rightarrow> pystr) \<Rightarrow> parser \<Rightarrow> event list \<Rightarrow> parser" where
  "feed_multi unquote lower p evs = foldl (dispatch_multi unquote lower) p evs"

text \<open>
  What \<open>parse_bookmarks_file_fast\<close> returns, read off the parser:
  \<open>(bookmarks_set, total_bookmarks_count, folders_set, total_folders_count)\<close>.
\<close>

definition parse_result :: "parser \<Rightarrow> bookmark_key set \<times> int \<times> pystr set \<times> int" where
  "parse_result p =
     (set (bookmarks p), int (length (bookmarks p)), folders p, total_folder_counter p)"

definition parse_bookmarks_file_fast ::
  "(pystr \<Rightarrow> pystr) \<Rightarrow> (pystr \<Rightarrow> pystr) \<Rightarrow> event list \<Rightarrow> pystr \<Rightarrow> bool \<Rightarrow> bool
     \<Rightarrow> bookmark_key set \<times> int \<times> pystr set \<times> int" where
  "parse_bookmarks_file_fast unquote lower content md fe de =
     parse_result (feed unquote lower (init_parser md fe de) content)"

definition parse_bookmarks_file_fast_multi ::
  "(pystr \<Rightarrow> pystr) \<Rightarrow> (pystr \<Rightarrow> pystr) \<Rightarrow> event list \<Rightarrow> pystr \<Rightarrow> bool \<Rightarrow> bool
     \<Rightarrow> bookmark_key set \<times> int \<times> pystr set \<times> int" where
  "parse_bookmarks_file_fast_multi unquote lower content md fe de =
     parse_result (feed_multi unquote lower (init_parser md fe de) content)"


section \<open>compare\_bookmarks.py: the regular-expression parser\<close>

text \<open>A match with one group is a string, a match with two groups a pair.\<close>

fun one_group :: "pystr list \<Rightarrow> pystr list" where
  "one_group [a] = [a]"
| "one_group gs = []"

fun two_groups :: "pystr list \<Rightarrow> (pystr \<times> pystr) list" where
  "two_groups [a, b] = [(a, b)]"
| "two_groups gs = []"

definition clean :: "pystr \<Rightarrow> pystr" where
  "clean t = strip (re_sub_empty no_flags tag_pattern t)"

definition parse_bookmarks_file :: "pystr \<Rightarrow> pystr \<Rightarrow> bookmark_key set \<times> pystr set" where
  "parse_bookmarks_file content md =
     (let raw_folders = concat (map one_group (findall IGNORECASE folder_pattern content));
          folders = set (map clean raw_folders);
          bookmarks =
            (if md = str ''url''
             then set (map Url (concat (map one_group (findall IGNORECASE url_pattern content))))
             else if md = str ''url-title''
             then set (map (\<lambda>ut. UrlTitle (fst ut) (clean (snd ut)))
                         (concat (map two_groups (findall IGNORECASE bookmark_pattern content))))
             else {})
      in (bookmarks, folders))"


section \<open>The multi-file scripts: intersection of all collections\<close>

record collection =
  b_set :: "bookmark_key set"
  b_total :: int
  f_set :: "pystr set"
  f_total :: int

text \<open>
  \<open>analyze_multiple_files\<close> of the streaming script, mode \<open>'intersection'\<close>, from the
  parsed \<open>all_data.values()\<close> on: it returns before the analysis when fewer than two
  files were parsed (\<open>None\<close>); otherwise it copies the sets of the first file and
  updates them with every other file in turn.
\<close>

definition analyze_intersection :: "collection list \<Rightarrow> (bookmark_key set \<times> pystr set) option" where
  "analyze_intersection all_data =
     (if length all_data < 2 then None
      else (case all_data of
              [] \<Rightarrow> None
            | first # others \<Rightarrow>
                Some (foldl (\<lambda>common d. common \<inter> b_set d) (b_set first) others,
                      foldl (\<lambda>common d. common \<inter> f_set d) (f_set first) others)))"

text \<open>
  \<open>generate_multi_report\<close> of compare\_multi\_bookmarks.py:
  \<open>set.intersection(*all_bookmark_sets)\<close> and \<open>set.intersection(*all_folder_sets)\<close>;
  with no set at all the call raises \<open>TypeError\<close> (\<open>None\<close>).
\<close>

definition set_intersection :: "'a set list \<Rightarrow> 'a set option" where
  "set_intersection sets =
     (case sets of [] \<Rightarrow> None | s # others \<Rightarrow> Some (foldl (\<inter>) s others))"

definition common_items ::
  "(bookmark_key set \<times> pystr set) list \<Rightarrow> (bookmark_key set \<times> pystr set) option" where
  "common_items all_data =
     (case set_intersection (map fst all_data) of
        None \<Rightarrow> None
      | Some common_bookmarks \<Rightarrow>
          (case set_intersection (map snd all_data) of
             None \<Rightarrow> None
           | Some common_folders \<Rightarrow> Some (common_bookmarks, common_folders)))"

text \<open>
  The result of an intersection as a collection again, to intersect it further; the
  totals play no part in the intersection.
\<close>

definition as_collection :: "bookmark_key set \<times> pystr set \<Rightarrow> collection" where
  "as_collection r = \<lparr>b_set = fst r, b_total = 0, f_set = snd r, f_total = 0\<rparr>"


section \<open>Orders and projections used to state the properties\<close>

text \<open>
  Python's \<open><\<close> on two strings (by code point, a proper prefix first) and on two keys of
  the same mode (tuples compare by URL, then by title). Keys of different modes never
  meet in one run.
\<close>

fun str_less :: "pystr \<Rightarrow> pystr \<Rightarrow> bool" where
  "str_less [] [] = False"
| "str_less [] (y # ys) = True"
| "str_less (x # xs) [] = False"
| "str_less (x # xs) (y # ys) =
     (x < y \<or> (x = y \<and> str_less xs ys))"

fun key_less :: "bookmark_key \<Rightarrow> bookmark_key \<Rightarrow> bool" where
  "key_less (Url a) (Url b) = str_less a b"
| "key_less (UrlTitle a t) (UrlTitle b u) = (str_less a b \<or> (a = b \<and> str_less t u))"
| "key_less (Url a) (UrlTitle b u) = False"
| "key_less (UrlTitle a t) (Url b) = False"

fun key_url :: "bookmark_key \<Rightarrow> pystr" where
  "key_url (Url u) = u"
| "key_url (UrlTitle u t) = u"


section \<open>Literals\<close>

lemma cp_eq_iff: "cp a = cp b \<longleftrightarrow> a = b"
  by (simp add: cp_def)

lemma str_eq_iff: "str a = str b \<longleftrightarrow> a = b"
  by (simp add: str_def inj_map_eq_map inj_def cp_eq_iff)

lemma str_Nil: "str [] = []"
  by (simp add: str_def)

lemma str_Cons: "str (c # cs) = cp c # str cs"
  by (simp add: str_def)

lemma str_Nil_iff: "str s = [] \<longleftrightarrow> s = []" "[] = str s \<longleftrightarrow> s = []"
  by (auto simp: str_def)

lemmas str_lit = str_eq_iff str_Nil_iff


section \<open>First-seen deduplication: the loop invariant\<close>

lemma dedup_loop_snoc:
  "dedup_loop keyf (ys @ [x]) = dedup_step keyf (dedup_loop keyf ys) x"
  by (simp add: dedup_loop_def)

lemma dedup_step_keys:
  "map fst (snd (dedup_step keyf st x)) =
     (if keyf x \<in> set (map fst (snd st)) then map fst (snd st) else map fst (snd st) @ [keyf x])"
  by (auto simp: dedup_step_def Let_def update_keys map_of_eq_None_iff split: option.splits)

lemma dedup_loop_keys_set: "set (map fst (snd (dedup_loop keyf ys))) = keyf ` set ys"
proof (induction ys rule: rev_induct)
  case Nil
  show ?case by (simp add: dedup_loop_def)
next
  case (snoc x ys)
  then show ?case
    unfolding dedup_loop_snoc dedup_step_keys by auto
qed

lemma dedup_loop_keys_distinct: "distinct (map fst (snd (dedup_loop keyf ys)))"
proof (induction ys rule: rev_induct)
  case Nil
  show ?case by (simp add: dedup_loop_def)
next
  case (snoc x ys)
  then show ?case
    unfolding dedup_loop_snoc dedup_step_keys by auto
qed

lemma dedup_step_lookup:
  "map_of (snd (dedup_step keyf st x)) k =
     (if k = keyf x
      then (case map_of (snd st) k of
              None \<Rightarrow> Some \<lparr>original = x, removed = []\<rparr>
            | Some g \<Rightarrow> Some (g\<lparr>removed := removed g @ [x]\<rparr>))
      else map_of (snd st) k)"
  by (auto simp: dedup_step_def Let_def update_conv' split: option.splits)

lemma dedup_loop_group:
  "map_of (snd (dedup_loop keyf ys)) k = Some g \<Longrightarrow>
     original g # removed g = filter (\<lambda>e. keyf e = k) ys"
proof (induction ys arbitrary: g rule: rev_induct)
  case Nil
  then show ?case by (simp add: dedup_loop_def)
next
  case (snoc x ys)
  show ?case
  proof (cases "k = keyf x")
    case False
    with snoc show ?thesis
      by (simp add: dedup_loop_snoc dedup_step_lookup)
  next
    case True
    show ?thesis
    proof (cases "map_of (snd (dedup_loop keyf ys)) k")
      case None
      then have "k \<notin> keyf ` set ys"
        using dedup_loop_keys_set [of keyf ys] by (simp add: map_of_eq_None_iff)
      then have "filter (\<lambda>e. keyf e = k) ys = []"
        by (auto simp: filter_empty_conv)
      with None True snoc.prems show ?thesis
        by (auto simp: dedup_loop_snoc dedup_step_lookup)
    next
      case (Some h)
      with True snoc.prems have "g = h\<lparr>removed := removed h @ [x]\<rparr>"
        by (simp add: dedup_loop_snoc dedup_step_lookup)
      with snoc.IH [OF Some] True show ?thesis by simp
    qed
  qed
qed

lemma map_update_present:
  "map_of al k = Some g \<Longrightarrow> f (k, v) = f (k, g) \<Longrightarrow> map f (AList.update k v al) = map f al"
  by (induction al) (auto split: if_splits)

lemma map_update_absent:
  "map_of al k = None \<Longrightarrow> map f (AList.update k v al) = map f al @ [f (k, v)]"
  by (induction al) (auto split: if_splits)

lemma dedup_loop_unique:
  "fst (dedup_loop keyf ys) = map (\<lambda>kv. original (snd kv)) (snd (dedup_loop keyf ys))"
proof (induction ys rule: rev_induct)
  case Nil
  show ?case by (simp add: dedup_loop_def)
next
  case (snoc x ys)
  then show ?case
    by (auto simp: dedup_loop_snoc dedup_step_def Let_def map_update_present map_update_absent
        split: option.splits)
qed

lemma sum_update_present:
  "map_of al k = Some g \<Longrightarrow>
     sum_list (map (\<lambda>kv. length (removed (snd kv))) (AList.update k (g\<lparr>removed := removed g @ [x]\<rparr>) al))
       = Suc (sum_list (map (\<lambda>kv. length (removed (snd kv))) al))"
  by (induction al) (auto split: if_splits)

lemma length_update_present:
  "map_of al k = Some g \<Longrightarrow> length (AList.update k v al) = length al"
  by (induction al) (auto split: if_splits)

lemma length_update_absent:
  "map_of al k = None \<Longrightarrow> length (AList.update k v al) = Suc (length al)"
  by (induction al) (auto split: if_splits)

lemma dedup_loop_count:
  "length (snd (dedup_loop keyf ys))
     + sum_list (map (\<lambda>kv. length (removed (snd kv))) (snd (dedup_loop keyf ys))) = length ys"
proof (induction ys rule: rev_induct)
  case Nil
  show ?case by (simp add: dedup_loop_def)
next
  case (snoc x ys)
  then show ?case
    by (auto simp: dedup_loop_snoc dedup_step_def Let_def map_update_absent sum_update_present
        length_update_present length_update_absent
        split: option.splits)
qed

lemma sum_duplicate_groups:
  "sum_list (map (\<lambda>kv. length (removed (snd kv))) (duplicate_groups al))
     = sum_list (map (\<lambda>kv. length (removed (snd kv))) al)"
  by (induction al) (auto simp: duplicate_groups_def)


lemma first_index_present:
  "k \<in> keyf ` set ys \<Longrightarrow>
     first_index keyf (ys @ zs) k = first_index keyf ys k \<and> first_index keyf ys k < length ys"
  unfolding first_index_def by (induction ys) auto

lemma first_index_absent:
  "keyf x \<notin> keyf ` set ys \<Longrightarrow> first_index keyf (ys @ [x]) (keyf x) = length ys"
  unfolding first_index_def by (induction ys) auto

lemma dedup_loop_keys_order:
  "sorted_wrt (\<lambda>a b. first_index keyf ys a < first_index keyf ys b)
     (map fst (snd (dedup_loop keyf ys)))"
proof (induction ys rule: rev_induct)
  case Nil
  show ?case by (simp add: dedup_loop_def)
next
  case (snoc x ys)
  let ?ks = "map fst (snd (dedup_loop keyf ys))"
  have ks: "set ?ks = keyf ` set ys" by (rule dedup_loop_keys_set)
  have old: "sorted_wrt (\<lambda>a b. first_index keyf (ys @ [x]) a < first_index keyf (ys @ [x]) b) ?ks"
  proof (rule sorted_wrt_mono_rel [OF _ snoc])
    fix a b
    assume "a \<in> set ?ks" "b \<in> set ?ks"
      and "first_index keyf ys a < first_index keyf ys b"
    then show "first_index keyf (ys @ [x]) a < first_index keyf (ys @ [x]) b"
      using ks first_index_present [of _ keyf ys "[x]"] by simp
  qed
  show ?case
  proof (cases "keyf x \<in> set ?ks")
    case True
    with old show ?thesis by (simp add: dedup_loop_snoc dedup_step_keys)
  next
    case False
    then have "\<forall>k\<in>set ?ks. first_index keyf (ys @ [x]) k < first_index keyf (ys @ [x]) (keyf x)"
      using ks first_index_present [of _ keyf ys "[x]"] first_index_absent [of keyf x ys]
      by auto
    with old False show ?thesis
      by (simp add: dedup_loop_snoc dedup_step_keys sorted_wrt_append)
  qed
qed

lemma insort_key_lex:
  assumes "sorted_wrt (\<lambda>a b. f a \<le> f b \<and> (f a = f b \<longrightarrow> idx a < idx b)) ys"
    and "\<forall>y\<in>set ys. idx x < idx y"
  shows "sorted_wrt (\<lambda>a b. f a \<le> f b \<and> (f a = f b \<longrightarrow> idx a < (idx b :: nat)))
           (insort_key f x ys)"
  using assms by (induction ys) (auto simp: set_insort_key)

lemma sort_key_lex:
  "sorted_wrt (\<lambda>a b. idx a < (idx b :: nat)) xs \<Longrightarrow>
     sorted_wrt (\<lambda>a b. f a \<le> f b \<and> (f a = f b \<longrightarrow> idx a < idx b)) (sort_key f xs)"
proof (induction xs)
  case Nil
  show ?case by simp
next
  case (Cons x xs)
  then show ?case
    by (auto intro!: insort_key_lex)
qed


lemma map_of_filter_distinct:
  "distinct (map fst al) \<Longrightarrow> map_of al k = Some g \<Longrightarrow>
     map_of (filter (\<lambda>kv. Q (snd kv)) al) k = (if Q g then Some g else None)"
proof (induction al)
  case Nil
  then show ?case by simp
next
  case (Cons a al)
  show ?case
  proof (cases "fst a = k")
    case True
    with Cons.prems have "snd a = g" and "k \<notin> fst ` set al" by auto
    then have "map_of (filter (\<lambda>kv. Q (snd kv)) al) k = None"
      by (auto simp: map_of_eq_None_iff)
    with True \<open>snd a = g\<close> show ?thesis by (cases a) auto
  next
    case False
    with Cons show ?thesis by (cases a) auto
  qed
qed

lemma filter_singleton_distinct:
  "distinct (map f xs) \<Longrightarrow> x \<in> set xs \<Longrightarrow> filter (\<lambda>e. f e = f x) xs = [x]"
proof (induction xs)
  case Nil
  then show ?case by simp
next
  case (Cons a xs)
  show ?case
  proof (cases "a = x")
    case True
    with Cons.prems have "f x \<notin> f ` set xs" by simp
    then have "\<forall>e\<in>set xs. f e \<noteq> f x" by (metis imageI)
    then have "filter (\<lambda>e. f e = f x) xs = []" by (simp add: filter_empty_conv)
    with True show ?thesis by simp
  next
    case False
    with Cons have "f a \<noteq> f x" by auto
    with Cons False show ?thesis by simp
  qed
qed

lemma dedup_loop_first_seen:
  assumes "k \<in> keyf ` set xs"
  shows "\<exists>g. map_of (snd (dedup_loop keyf xs)) k = Some g
            \<and> filter (\<lambda>e. keyf e = k) (fst (dedup_loop keyf xs)) = [original g]
            \<and> original g # removed g = filter (\<lambda>e. keyf e = k) xs
            \<and> map_of (duplicate_groups (snd (dedup_loop keyf xs))) k
                = (if removed g = [] then None else Some g)"
proof -
  let ?al = "snd (dedup_loop keyf xs)"
  from assms have "k \<in> fst ` set ?al"
    using dedup_loop_keys_set [of keyf xs] by simp
  then obtain g where g: "map_of ?al k = Some g"
    by (cases "map_of ?al k") (auto simp: map_of_eq_None_iff)
  have grp: "original g # removed g = filter (\<lambda>e. keyf e = k) xs"
    by (rule dedup_loop_group [OF g])
  then have "original g \<in> set (filter (\<lambda>e. keyf e = k) xs)"
    by (metis list.set_intros(1))
  then have kg: "keyf (original g) = k" by simp
  have mem: "(k, g) \<in> set ?al" by (rule map_of_SomeD [OF g])
  have keys: "\<And>kv. kv \<in> set ?al \<Longrightarrow> keyf (original (snd kv)) = fst kv"
  proof -
    fix kv assume kv: "kv \<in> set ?al"
    have "distinct (map fst ?al)" by (rule dedup_loop_keys_distinct)
    with kv have "map_of ?al (fst kv) = Some (snd kv)"
      by (metis map_of_eq_Some_iff prod.collapse)
    from dedup_loop_group [OF this]
    have "original (snd kv) \<in> set (filter (\<lambda>e. keyf e = fst kv) xs)"
      by (metis list.set_intros(1))
    then show "keyf (original (snd kv)) = fst kv" by simp
  qed
  have uq: "fst (dedup_loop keyf xs) = map (\<lambda>kv. original (snd kv)) ?al"
    by (rule dedup_loop_unique)
  have "map keyf (fst (dedup_loop keyf xs)) = map fst ?al"
    unfolding uq using keys by (simp add: map_eq_conv)
  then have dist: "distinct (map keyf (fst (dedup_loop keyf xs)))"
    using dedup_loop_keys_distinct [of keyf xs] by simp
  have "original g \<in> set (fst (dedup_loop keyf xs))"
    unfolding uq using mem by force
  from filter_singleton_distinct [OF dist this] kg
  have one: "filter (\<lambda>e. keyf e = k) (fst (dedup_loop keyf xs)) = [original g]" by simp
  have "map_of (duplicate_groups ?al) k = (if removed g \<noteq> [] then Some g else None)"
    unfolding duplicate_groups_def
    by (rule map_of_filter_distinct [OF dedup_loop_keys_distinct g])
  with g one grp show ?thesis by auto
qed

lemma dedup_loop_conservation:
  "length (fst (dedup_loop keyf xs))
     + sum_list (map (\<lambda>kv. length (removed (snd kv))) (duplicate_groups (snd (dedup_loop keyf xs))))
   = length xs"
  using dedup_loop_count [of keyf xs]
  by (simp add: sum_duplicate_groups dedup_loop_unique [of keyf xs])

lemma sorted_groups_order:
  fixes keyf xs
  defines "sg \<equiv> sorted_groups (duplicate_groups (snd (dedup_loop keyf xs)))"
  shows "sorted_wrt (\<lambda>a b. length (removed (snd b)) \<le> length (removed (snd a))
            \<and> (length (removed (snd a)) = length (removed (snd b))
                 \<longrightarrow> first_index keyf xs (fst a) < first_index keyf xs (fst b))) sg"
proof -
  let ?al = "snd (dedup_loop keyf xs)"
  let ?idx = "\<lambda>kv. first_index keyf xs (fst kv)"
  let ?f = "\<lambda>item. - int (length (removed (snd item)))"
  have "sorted_wrt (\<lambda>a b. first_index keyf xs a < first_index keyf xs b) (map fst ?al)"
    by (rule dedup_loop_keys_order)
  then have "sorted_wrt (\<lambda>a b. ?idx a < ?idx b) ?al"
    by (simp add: sorted_wrt_map)
  then have "sorted_wrt (\<lambda>a b. ?idx a < ?idx b) (duplicate_groups ?al)"
    unfolding duplicate_groups_def by (rule sorted_wrt_filter)
  from sort_key_lex [OF this, of ?f]
  have "sorted_wrt (\<lambda>a b. ?f a \<le> ?f b \<and> (?f a = ?f b \<longrightarrow> ?idx a < ?idx b)) sg"
    by (simp add: sg_def sorted_groups_def)
  then show ?thesis
    by (rule sorted_wrt_mono_rel [rotated]) auto
qed

lemma normalize_url_x_com_slash: "normalize_url (str ''http://x.com/'') False True = (str ''x.com'')"
  by (simp add: normalize_url_def re_sub_empty_at_start_def scheme_pattern_def lits_def
      no_flags_def py_find_def startswith_def slice_from_def rstrip_def str_def cp_def)

lemma normalize_url_x_com: "normalize_url (str ''http://x.com'') False True = (str ''x.com'')"
  by (simp add: normalize_url_def re_sub_empty_at_start_def scheme_pattern_def lits_def
      no_flags_def py_find_def startswith_def slice_from_def rstrip_def str_def cp_def)

lemma normalize_url_a: "normalize_url (str ''a'') False False = str ''a''"
  by (simp add: normalize_url_def re_sub_empty_at_start_def scheme_pattern_def lits_def
      no_flags_def str_def cp_def)

lemma normalize_url_b: "normalize_url (str ''b'') False False = str ''b''"
  by (simp add: normalize_url_def re_sub_empty_at_start_def scheme_pattern_def lits_def
      no_flags_def str_def cp_def)

lemma str_less_a_b: "str_less (str ''a'') (str ''b'')"
  by (simp add: str_def cp_def)


section \<open>Properties of the deduplication scripts\<close>

text \<open>
  C1. First-seen deduplication. In both deduplication scripts, for every list of parsed
  bookmarks and every key \<open>k\<close> that occurs in it: \<open>processed_items\<close> holds a group for
  \<open>k\<close>; among the kept bookmarks exactly one has key \<open>k\<close>, the group's original; the
  original followed by the removed list is the list of all bookmarks with key \<open>k\<close> in
  parse order, so the original is the first occurrence and the removed list is every
  later one, in order; and the group is reported among the duplicate groups exactly
  when its removed list is not empty.
\<close>

theorem first_seen_deduplication:
  "(k \<in> plain_key md ` set all_bookmarks \<longrightarrow>
      (\<exists>g. map_of (processed (deduplicate md all_bookmarks)) k = Some g
         \<and> filter (\<lambda>e. plain_key md e = k) (unique_bookmarks (deduplicate md all_bookmarks))
             = [original g]
         \<and> original g # removed g = filter (\<lambda>e. plain_key md e = k) all_bookmarks
         \<and> map_of (groups (deduplicate md all_bookmarks)) k
             = (if removed g = [] then None else Some g)))
   \<and> (k' \<in> normalized_key md sp ig ` set all_bookmarks \<longrightarrow>
      (\<exists>g. map_of (processed (deduplicate_robust md sp ig all_bookmarks)) k' = Some g
         \<and> filter (\<lambda>e. normalized_key md sp ig e = k')
               (unique_bookmarks (deduplicate_robust md sp ig all_bookmarks))
             = [original g]
         \<and> original g # removed g = filter (\<lambda>e. normalized_key md sp ig e = k') all_bookmarks
         \<and> map_of (groups (deduplicate_robust md sp ig all_bookmarks)) k'
             = (if removed g = [] then None else Some g)))"
  using dedup_loop_first_seen [of k "plain_key md" all_bookmarks]
    dedup_loop_first_seen [of k' "normalized_key md sp ig" all_bookmarks]
  by (simp add: deduplicate_def deduplicate_robust_def Let_def)

theorem first_seen_deduplication_witness:
  "Url (str ''http://x.com/'') \<in> plain_key (str ''url'') `
      set [((str ''http://x.com/''), (str ''A'')), ((str ''http://x.com''), (str ''A'')), ((str ''http://x.com/''), (str ''B''))]
   \<and> Url (str ''x.com'') \<in> normalized_key (str ''url'') False True `
      set [((str ''http://x.com/''), (str ''A'')), ((str ''http://x.com''), (str ''A'')), ((str ''http://x.com/''), (str ''B''))]
   \<and> map_of (groups (deduplicate (str ''url'')
        [((str ''http://x.com/''), (str ''A'')), ((str ''http://x.com''), (str ''A'')), ((str ''http://x.com/''), (str ''B''))]))
        (Url (str ''http://x.com/''))
      = Some \<lparr>original = ((str ''http://x.com/''), (str ''A'')), removed = [((str ''http://x.com/''), (str ''B''))]\<rparr>
   \<and> map_of (groups (deduplicate_robust (str ''url'') False True
        [((str ''http://x.com/''), (str ''A'')), ((str ''http://x.com''), (str ''A'')), ((str ''http://x.com/''), (str ''B''))]))
        (Url (str ''x.com''))
      = Some \<lparr>original = ((str ''http://x.com/''), (str ''A'')),
               removed = [((str ''http://x.com''), (str ''A'')), ((str ''http://x.com/''), (str ''B''))]\<rparr>"
  using first_seen_deduplication [of "Url (str ''http://x.com/'')" "(str ''url'')"
      "[((str ''http://x.com/''), (str ''A'')), ((str ''http://x.com''), (str ''A'')), ((str ''http://x.com/''), (str ''B''))]"
      "Url (str ''x.com'')" False True]
  by (simp add: plain_key_def normalized_key_def normalize_url_x_com_slash normalize_url_x_com
      deduplicate_def deduplicate_robust_def dedup_loop_def dedup_step_def duplicate_groups_def
      str_lit)

text \<open>
  C5. Dedup conservation. In both deduplication scripts the number of kept bookmarks
  plus the lengths of the removed lists of all duplicate groups is the number of
  bookmarks that entered the loop, and the reported \<open>total_removed_items\<close> is that sum
  of lengths.
\<close>

theorem dedup_conservation:
  "int (length (unique_bookmarks (deduplicate md all_bookmarks)))
     + total_removed_items (deduplicate md all_bookmarks) = int (length all_bookmarks)
   \<and> length (unique_bookmarks (deduplicate md all_bookmarks))
     + sum_list (map (\<lambda>kv. length (removed (snd kv))) (groups (deduplicate md all_bookmarks)))
     = length all_bookmarks
   \<and> remaining_bookmarks_count (deduplicate_robust md sp ig all_bookmarks)
     + total_removed_items (deduplicate_robust md sp ig all_bookmarks)
     = total_bookmarks_count (deduplicate_robust md sp ig all_bookmarks)
   \<and> total_bookmarks_count (deduplicate_robust md sp ig all_bookmarks)
     = int (length all_bookmarks)
   \<and> length (unique_bookmarks (deduplicate_robust md sp ig all_bookmarks))
     + sum_list (map (\<lambda>kv. length (removed (snd kv)))
         (groups (deduplicate_robust md sp ig all_bookmarks)))
     = length all_bookmarks"
  using dedup_loop_conservation [of "plain_key md" all_bookmarks]
    dedup_loop_conservation [of "normalized_key md sp ig" all_bookmarks]
  by (simp add: deduplicate_def deduplicate_robust_def Let_def)


text \<open>
  C4. Order of the report. In both deduplication scripts the groups of the report are
  in descending order of removed-count, and of two groups with the same
  removed-count the one whose key occurs first in the parsed list comes first (the
  sort is stable over the dict's insertion order); the keys themselves are not
  compared.
\<close>

theorem report_order_first_seen_ties:
  "(i < j \<and> j < length (sorted_groups (groups (deduplicate md all_bookmarks))) \<longrightarrow>
      length (removed (snd (sorted_groups (groups (deduplicate md all_bookmarks)) ! j)))
        \<le> length (removed (snd (sorted_groups (groups (deduplicate md all_bookmarks)) ! i)))
      \<and> (length (removed (snd (sorted_groups (groups (deduplicate md all_bookmarks)) ! i)))
           = length (removed (snd (sorted_groups (groups (deduplicate md all_bookmarks)) ! j)))
         \<longrightarrow> first_index (plain_key md) all_bookmarks
               (fst (sorted_groups (groups (deduplicate md all_bookmarks)) ! i))
             < first_index (plain_key md) all_bookmarks
               (fst (sorted_groups (groups (deduplicate md all_bookmarks)) ! j))))
   \<and> (i' < j' \<and> j' < length (sorted_groups (groups (deduplicate_robust md sp ig all_bookmarks))) \<longrightarrow>
      length (removed (snd (sorted_groups (groups (deduplicate_robust md sp ig all_bookmarks)) ! j')))
        \<le> length (removed (snd (sorted_groups (groups (deduplicate_robust md sp ig all_bookmarks)) ! i')))
      \<and> (length (removed (snd (sorted_groups (groups (deduplicate_robust md sp ig all_bookmarks)) ! i')))
           = length (removed (snd (sorted_groups (groups (deduplicate_robust md sp ig all_bookmarks)) ! j')))
         \<longrightarrow> first_index (normalized_key md sp ig) all_bookmarks
               (fst (sorted_groups (groups (deduplicate_robust md sp ig all_bookmarks)) ! i'))
             < first_index (normalized_key md sp ig) all_bookmarks
               (fst (sorted_groups (groups (deduplicate_robust md sp ig all_bookmarks)) ! j'))))"
  using sorted_groups_order [of "plain_key md" all_bookmarks]
    sorted_groups_order [of "normalized_key md sp ig" all_bookmarks]
  by (simp add: deduplicate_def deduplicate_robust_def Let_def sorted_wrt_iff_nth_less)

theorem report_order_first_seen_ties_witness:
  "(0::nat) < 1
   \<and> 1 < length (sorted_groups (groups (deduplicate (str ''url'')
            [((str ''b''), (str ''1'')), ((str ''a''), (str ''2'')), ((str ''b''), (str ''3'')), ((str ''a''), (str ''4''))])))
   \<and> 1 < length (sorted_groups (groups (deduplicate_robust (str ''url'') True False
            [((str ''b''), (str ''1'')), ((str ''a''), (str ''2'')), ((str ''b''), (str ''3'')), ((str ''a''), (str ''4''))])))
   \<and> first_index (plain_key (str ''url'')) [((str ''b''), (str ''1'')), ((str ''a''), (str ''2'')), ((str ''b''), (str ''3'')), ((str ''a''), (str ''4''))]
        (fst (sorted_groups (groups (deduplicate (str ''url'')
            [((str ''b''), (str ''1'')), ((str ''a''), (str ''2'')), ((str ''b''), (str ''3'')), ((str ''a''), (str ''4''))])) ! 0))
     < first_index (plain_key (str ''url'')) [((str ''b''), (str ''1'')), ((str ''a''), (str ''2'')), ((str ''b''), (str ''3'')), ((str ''a''), (str ''4''))]
        (fst (sorted_groups (groups (deduplicate (str ''url'')
            [((str ''b''), (str ''1'')), ((str ''a''), (str ''2'')), ((str ''b''), (str ''3'')), ((str ''a''), (str ''4''))])) ! 1))
   \<and> first_index (normalized_key (str ''url'') True False)
        [((str ''b''), (str ''1'')), ((str ''a''), (str ''2'')), ((str ''b''), (str ''3'')), ((str ''a''), (str ''4''))]
        (fst (sorted_groups (groups (deduplicate_robust (str ''url'') True False
            [((str ''b''), (str ''1'')), ((str ''a''), (str ''2'')), ((str ''b''), (str ''3'')), ((str ''a''), (str ''4''))])) ! 0))
     < first_index (normalized_key (str ''url'') True False)
        [((str ''b''), (str ''1'')), ((str ''a''), (str ''2'')), ((str ''b''), (str ''3'')), ((str ''a''), (str ''4''))]
        (fst (sorted_groups (groups (deduplicate_robust (str ''url'') True False
            [((str ''b''), (str ''1'')), ((str ''a''), (str ''2'')), ((str ''b''), (str ''3'')), ((str ''a''), (str ''4''))])) ! 1))"
  using report_order_first_seen_ties [of 0 1 "(str ''url'')"
      "[((str ''b''), (str ''1'')), ((str ''a''), (str ''2'')), ((str ''b''), (str ''3'')), ((str ''a''), (str ''4''))]" 0 1 True False]
  by (simp add: plain_key_def normalized_key_def normalize_url_def
      deduplicate_def deduplicate_robust_def dedup_loop_def dedup_step_def duplicate_groups_def
      sorted_groups_def Let_def first_index_def str_lit)

text \<open>
  The tie-break by key order fails: with the bookmarks \<open>b, a, b, a\<close> both groups have
  one removed entry, and the report lists the group of \<open>b\<close> before the group of \<open>a\<close>,
  although \<open>a < b\<close>.
\<close>

theorem report_ties_by_key_counterexample:
  "map fst (sorted_groups (groups (deduplicate (str ''url'')
        [((str ''b''), (str ''1'')), ((str ''a''), (str ''2'')), ((str ''b''), (str ''3'')), ((str ''a''), (str ''4''))])))
     = [Url (str ''b''), Url (str ''a'')]
   \<and> map (length \<circ> removed \<circ> snd) (sorted_groups (groups (deduplicate (str ''url'')
        [((str ''b''), (str ''1'')), ((str ''a''), (str ''2'')), ((str ''b''), (str ''3'')), ((str ''a''), (str ''4''))])))
     = [1, 1]
   \<and> key_less (Url (str ''a'')) (Url (str ''b''))
   \<and> map fst (sorted_groups (groups (deduplicate_robust (str ''url'') False False
        [((str ''b''), (str ''1'')), ((str ''a''), (str ''2'')), ((str ''b''), (str ''3'')), ((str ''a''), (str ''4''))])))
     = [Url (str ''b''), Url (str ''a'')]
   \<and> map (length \<circ> removed \<circ> snd) (sorted_groups (groups (deduplicate_robust (str ''url'') False False
        [((str ''b''), (str ''1'')), ((str ''a''), (str ''2'')), ((str ''b''), (str ''3'')), ((str ''a''), (str ''4''))])))
     = [1, 1]"
  by (simp add: plain_key_def normalized_key_def normalize_url_a normalize_url_b str_less_a_b
      deduplicate_def deduplicate_robust_def dedup_loop_def dedup_step_def duplicate_groups_def
      sorted_groups_def Let_def str_lit)


section \<open>Properties of normalize\_url\<close>

lemma startswith_Cons:
  "startswith (x # xs) (c # p) = (x = c \<and> startswith xs p)"
  by (auto simp: startswith_def)

lemma startswith_Nil: "startswith [] (c # p) = False"
  by (simp add: startswith_def)

lemma startswith_empty: "startswith s [] = True"
  by (simp add: startswith_def)

lemma ignorecase_no_flags: "ignorecase no_flags = False"
  by (simp add: no_flags_def)

lemma rx_match_lits:
  "rx_match no_flags (lits p @ r) s =
     (if startswith s p then rx_match no_flags r (drop (length p) s) else None)"
proof (induction p arbitrary: s)
  case Nil
  show ?case by (simp add: lits_def startswith_empty)
next
  case (Cons c p)
  have ih: "\<And>t. rx_match no_flags (map (\<lambda>c. One (Lit c)) p @ r) t =
     (if startswith t p then rx_match no_flags r (drop (length p) t) else None)"
    using Cons.IH by (simp add: lits_def)
  show ?case
  proof (cases s)
    case Nil
    then show ?thesis by (simp add: lits_def startswith_Nil)
  next
    case (Cons x xs)
    then show ?thesis
      by (simp add: lits_def ih startswith_Cons ignorecase_no_flags)
  qed
qed

lemma rx_match_scheme:
  "rx_match no_flags scheme_pattern url =
     (if startswith url (str ''http://'') then Some ([], drop 7 url)
      else if startswith url (str ''https://'') then Some ([], drop 8 url)
      else None)"
proof (cases "startswith url (str ''http'')")
  case False
  then have "\<not> startswith url (str ''http://'')" "\<not> startswith url (str ''https://'')"
    by (auto simp: startswith_def str_Cons str_Nil dest: arg_cong [where f = "take 4"])
  with False show ?thesis
    by (simp add: scheme_pattern_def rx_match_lits)
next
  case True
  then obtain t where url: "url = (str ''http'') @ t"
    by (metis append_take_drop_id startswith_def)
  show ?thesis
  proof (cases t)
    case Nil
    with url show ?thesis
      by (simp add: scheme_pattern_def lits_def startswith_def str_Cons str_Nil)
  next
    case (Cons x xs)
    with url show ?thesis
      by (cases xs; cases "tl xs"; cases "tl (tl xs)"; cases "tl (tl (tl xs))")
        (auto simp: scheme_pattern_def lits_def startswith_def ignorecase_no_flags
          str_Cons str_Nil cp_eq_iff)
  qed
qed

lemma strip_scheme:
  "re_sub_empty_at_start no_flags scheme_pattern url =
     (if startswith url (str ''http://'') then drop 7 url
      else if startswith url (str ''https://'') then drop 8 url
      else url)"
  by (simp add: re_sub_empty_at_start_def rx_match_scheme)

lemma rstrip_decomp: "\<exists>n. s = rstrip s [c] @ replicate n c"
proof -
  let ?P = "\<lambda>x. x \<in> set [c]"
  have "rev s = takeWhile ?P (rev s) @ dropWhile ?P (rev s)" by simp
  then have "s = rev (dropWhile ?P (rev s)) @ rev (takeWhile ?P (rev s))"
    by (metis rev_append rev_rev_ident)
  moreover have "\<forall>y\<in>set (rev (takeWhile ?P (rev s))). y = c"
    by (auto dest: set_takeWhileD)
  then have "replicate (length (rev (takeWhile ?P (rev s)))) c = rev (takeWhile ?P (rev s))"
    by (rule replicate_length_same)
  ultimately show ?thesis
    unfolding rstrip_def by metis
qed

lemma rstrip_last: "rstrip s [c] = [] \<or> last (rstrip s [c]) \<noteq> c"
proof (cases "dropWhile (\<lambda>x. x \<in> set [c]) (rev s) = []")
  case True
  then show ?thesis by (simp add: rstrip_def)
next
  case False
  from hd_dropWhile [OF False] have "hd (dropWhile (\<lambda>x. x \<in> set [c]) (rev s)) \<noteq> c"
    by simp
  with False show ?thesis
    by (simp add: rstrip_def last_rev)
qed

lemma rstrip_single: "v = [] \<or> last v \<noteq> c \<Longrightarrow> rstrip (v @ [c]) [c] = v"
proof (cases v rule: rev_cases)
  case Nil
  then show ?thesis by (simp add: rstrip_def)
next
  case (snoc ys y)
  assume "v = [] \<or> last v \<noteq> c"
  with snoc show ?thesis by (simp add: rstrip_def)
qed

text \<open>
  C2. Trailing slashes. With \<open>ignore_slash\<close> set, \<open>normalize_url\<close> leaves the URL (as it
  is after the protocol step) unchanged when no \<open>/\<close> occurs in
  \<open>url[url.find('://')+3:]\<close>; otherwise it removes every trailing \<open>/\<close>: the URL is the
  result followed by slashes only, and the result does not end in a slash. A URL that
  ends in a single slash loses exactly that slash.
\<close>

theorem trailing_slashes_stripped:
  "((cp CHR ''/'') \<notin> set (slice_from (normalize_url url sp False)
                        (py_find (normalize_url url sp False) (str ''://'') + 3))
      \<longrightarrow> normalize_url url sp True = normalize_url url sp False)
   \<and> ((cp CHR ''/'') \<in> set (slice_from (normalize_url url sp False)
                        (py_find (normalize_url url sp False) (str ''://'') + 3))
      \<longrightarrow> (\<exists>n. normalize_url url sp False = normalize_url url sp True @ replicate n (cp CHR ''/''))
          \<and> (normalize_url url sp True = [] \<or> last (normalize_url url sp True) \<noteq> (cp CHR ''/'')))
   \<and> ((cp CHR ''/'') \<in> set (slice_from (normalize_url url sp False)
                        (py_find (normalize_url url sp False) (str ''://'') + 3))
       \<and> normalize_url url sp False = v @ (str ''/'') \<and> (v = [] \<or> last v \<noteq> (cp CHR ''/''))
      \<longrightarrow> normalize_url url sp True = v)"
  using rstrip_decomp [of "normalize_url url sp False" "(cp CHR ''/'')"]
    rstrip_last [of "normalize_url url sp False" "(cp CHR ''/'')"]
    rstrip_single [of v "(cp CHR ''/'')"]
  by (auto simp: normalize_url_def Let_def str_Cons str_Nil)

theorem trailing_slashes_stripped_witness:
  "(cp CHR ''/'') \<notin> set (slice_from (normalize_url (str ''http://x.com'') True False)
                        (py_find (normalize_url (str ''http://x.com'') True False) (str ''://'') + 3))
   \<and> normalize_url (str ''http://x.com'') True True = (str ''http://x.com'')
   \<and> (cp CHR ''/'') \<in> set (slice_from (normalize_url (str ''http://x.com/a/'') True False)
                        (py_find (normalize_url (str ''http://x.com/a/'') True False) (str ''://'') + 3))
   \<and> normalize_url (str ''http://x.com/a/'') True False = (str ''http://x.com/a'') @ (str ''/'')
   \<and> last (str ''http://x.com/a'') \<noteq> (cp CHR ''/'')
   \<and> normalize_url (str ''http://x.com/a/'') True True = (str ''http://x.com/a'')"
  using trailing_slashes_stripped [of "(str ''http://x.com'')" True "(str '''')"]
    trailing_slashes_stripped [of "(str ''http://x.com/a/'')" True "(str ''http://x.com/a'')"]
  by (simp add: normalize_url_def py_find_def startswith_def slice_from_def rstrip_def
      str_def cp_def)

text \<open>
  Stripping exactly one slash fails for a URL that ends in two slashes: both are
  removed.
\<close>

theorem exactly_one_slash_counterexample:
  "normalize_url (str ''http://x.com/a//'') True True = (str ''http://x.com/a'')
   \<and> normalize_url (str ''http://x.com/a//'') True False = (str ''http://x.com/a'') @ (str ''//'')
   \<and> normalize_url (str ''http://x.com/a//'') True True \<noteq> (str ''http://x.com/a/'')"
  by (simp add: normalize_url_def py_find_def startswith_def slice_from_def rstrip_def
      str_def cp_def)

text \<open>
  C3. Protocol collapsing. Without \<open>strict_protocol\<close>, \<open>normalize_url\<close> strips a leading
  \<open>http://\<close> or \<open>https://\<close> written in lower case, so the two schemes of one address give
  the same result; a URL that starts with neither, as one whose scheme is written in
  capitals, is returned unchanged by this step.
\<close>

theorem scheme_prefix_case_sensitive:
  "normalize_url ((str ''http://'') @ r) False ig = normalize_url ((str ''https://'') @ r) False ig
   \<and> normalize_url ((str ''http://'') @ r) False False = r
   \<and> normalize_url ((str ''https://'') @ r) False False = r
   \<and> (\<not> startswith url (str ''http://'') \<and> \<not> startswith url (str ''https://'')
        \<longrightarrow> normalize_url url False False = url)"
  by (simp add: normalize_url_def strip_scheme startswith_def str_def cp_def)

theorem scheme_prefix_case_sensitive_witness:
  "\<not> startswith (str ''HTTP://x.com'') (str ''http://'') \<and> \<not> startswith (str ''HTTP://x.com'') (str ''https://'')
   \<and> normalize_url (str ''HTTP://x.com'') False False = (str ''HTTP://x.com'')"
  using scheme_prefix_case_sensitive [of "(str ''x'')" False "(str ''HTTP://x.com'')"]
  by (simp add: startswith_def str_def cp_def)

text \<open>
  The match is case-sensitive: \<open>HTTP://x.com\<close> keeps its prefix and \<open>http://x.com\<close>
  loses it, so the two URLs get different keys.
\<close>

theorem scheme_case_insensitive_counterexample:
  "normalize_url (str ''HTTP://x.com'') False False = (str ''HTTP://x.com'')
   \<and> normalize_url (str ''http://x.com'') False False = (str ''x.com'')
   \<and> normalize_url (str ''HTTP://x.com'') False False \<noteq> normalize_url (str ''http://x.com'') False False"
  by (simp add: normalize_url_def strip_scheme startswith_def str_def cp_def)

text \<open>
  C10. No scheme separator. When the URL (as it is after the protocol step) contains no
  \<open>://\<close>, \<open>find\<close> returns \<open>-1\<close> and the slash test reads \<open>url[2:]\<close>: the trailing slashes
  are stripped exactly when a \<open>/\<close> occurs at index 2 or later, indices counting
  characters. So \<open>a/\<close> is returned unchanged, as is U+00E9 followed by \<open>/\<close>, and
  \<open>ab/\<close> becomes \<open>ab\<close>.
\<close>

theorem no_separator_slice_from_two:
  "(py_find (normalize_url url sp False) (str ''://'') = - 1 \<longrightarrow>
      normalize_url url sp True =
        (if (cp CHR ''/'') \<in> set (drop 2 (normalize_url url sp False))
         then rstrip (normalize_url url sp False) (str ''/'')
         else normalize_url url sp False))
   \<and> normalize_url (str ''a/'') sp True = (str ''a/'')
   \<and> normalize_url (str ''ab/'') sp True = (str ''ab'')
   \<and> normalize_url [0xE9, cp CHR ''/''] sp True = [0xE9, cp CHR ''/'']"
  by (simp add: normalize_url_def strip_scheme startswith_def slice_from_def py_find_def
      rstrip_def str_def cp_def)

theorem no_separator_slice_from_two_witness:
  "py_find (normalize_url (str ''a/'') True False) (str ''://'') = - 1
   \<and> (cp CHR ''/'') \<notin> set (drop 2 (normalize_url (str ''a/'') True False))
   \<and> normalize_url (str ''a/'') True True = (str ''a/'')"
  using no_separator_slice_from_two [of "(str ''a/'')" True]
  by (simp add: normalize_url_def py_find_def startswith_def str_def cp_def)


section \<open>Properties of the streaming parsers\<close>

lemma end_anchor_rejected:
  assumes "filter_enabled p" and "current_url p = Some url"
    and "\<not> allowed_protocol lower (if decode_enabled p then unquote url else url)"
  shows "bookmarks (end_anchor unquote lower p) = bookmarks p"
    and "folders (end_anchor unquote lower p) = folders p"
    and "total_folder_counter (end_anchor unquote lower p) = total_folder_counter p"
  using assms by (auto simp: end_anchor_def add_bookmark_def Let_def)

lemma end_anchor_config:
  "filter_enabled (end_anchor unquote lower p) = filter_enabled p"
  by (auto simp: end_anchor_def add_bookmark_def Let_def split: option.splits)

lemma end_anchor_allowed:
  assumes "filter_enabled p" and "\<forall>k\<in>set (bookmarks p). allowed_protocol lower (key_url k)"
  shows "\<forall>k\<in>set (bookmarks (end_anchor unquote lower p)). allowed_protocol lower (key_url k)"
  using assms by (auto simp: end_anchor_def add_bookmark_def Let_def split: option.splits)

lemma dispatch_allowed:
  assumes "filter_enabled p" and "\<forall>k\<in>set (bookmarks p). allowed_protocol lower (key_url k)"
  shows "filter_enabled (dispatch unquote lower p ev)
         \<and> (\<forall>k\<in>set (bookmarks (dispatch unquote lower p ev)). allowed_protocol lower (key_url k))"
proof (cases ev)
  case (StartTag tag attrs)
  with assms show ?thesis by (simp add: handle_starttag_def)
next
  case (Data d)
  with assms show ?thesis by (simp add: handle_data_def)
next
  case (EndTag tag)
  with assms end_anchor_allowed [OF assms, where unquote = unquote] show ?thesis
    by (simp add: handle_endtag_def end_anchor_config)
qed

lemma dispatch_multi_allowed:
  assumes "filter_enabled p" and "\<forall>k\<in>set (bookmarks p). allowed_protocol lower (key_url k)"
  shows "filter_enabled (dispatch_multi unquote lower p ev)
         \<and> (\<forall>k\<in>set (bookmarks (dispatch_multi unquote lower p ev)).
               allowed_protocol lower (key_url k))"
proof (cases ev)
  case (StartTag tag attrs)
  with assms show ?thesis by (simp add: handle_starttag_def)
next
  case (Data d)
  with assms show ?thesis by (simp add: handle_data_def)
next
  case (EndTag tag)
  with assms end_anchor_allowed [OF assms, where unquote = unquote] show ?thesis
    by (simp add: handle_endtag_multi_def end_anchor_config Let_def)
qed

lemma feed_allowed:
  "filter_enabled p \<Longrightarrow> \<forall>k\<in>set (bookmarks p). allowed_protocol lower (key_url k) \<Longrightarrow>
     \<forall>k\<in>set (bookmarks (feed unquote lower p evs)). allowed_protocol lower (key_url k)"
  unfolding feed_def
proof (induction evs arbitrary: p)
  case Nil
  then show ?case by simp
next
  case (Cons ev evs)
  from dispatch_allowed [OF Cons.prems, where unquote = unquote and ev = ev]
  have "\<forall>k\<in>set (bookmarks (foldl (dispatch unquote lower) (dispatch unquote lower p ev) evs)).
          allowed_protocol lower (key_url k)"
    by (intro Cons.IH) simp_all
  then show ?case by simp
qed

lemma feed_multi_allowed:
  "filter_enabled p \<Longrightarrow> \<forall>k\<in>set (bookmarks p). allowed_protocol lower (key_url k) \<Longrightarrow>
     \<forall>k\<in>set (bookmarks (feed_multi unquote lower p evs)). allowed_protocol lower (key_url k)"
  unfolding feed_multi_def
proof (induction evs arbitrary: p)
  case Nil
  then show ?case by simp
next
  case (Cons ev evs)
  from dispatch_multi_allowed [OF Cons.prems, where unquote = unquote and ev = ev]
  have "\<forall>k\<in>set (bookmarks
            (foldl (dispatch_multi unquote lower) (dispatch_multi unquote lower p ev) evs)).
          allowed_protocol lower (key_url k)"
    by (intro Cons.IH) simp_all
  then show ?case by simp
qed

lemma dispatch_multi_folders:
  "[] \<notin> folders p \<Longrightarrow> [] \<notin> folders (dispatch_multi unquote lower p ev)"
  by (cases ev)
    (auto simp: handle_starttag_def handle_data_def handle_endtag_multi_def end_anchor_def
      add_bookmark_def Let_def split: option.splits)

lemma feed_multi_folders:
  "[] \<notin> folders p \<Longrightarrow> [] \<notin> folders (feed_multi unquote lower p evs)"
  unfolding feed_multi_def
  by (induction evs arbitrary: p) (simp_all add: dispatch_multi_folders)

lemma allowed_http_x_com: "allowed_protocol (\<lambda>s. s) (str ''http://x.com'')"
  by (simp add: allowed_protocol_def startswith_any_def startswith_def str_def cp_def)

lemma not_allowed_mailto: "\<not> allowed_protocol (\<lambda>s. s) (str ''mailto:a@b.c'')"
  by (simp add: allowed_protocol_def startswith_any_def startswith_def str_def cp_def)

lemma strip_blank: "strip [0x20, 0x3000, 0xA0] = []"
  by (simp add: strip_def isspace_def)

text \<open>
  C6. Protocol filter. With the filter enabled, closing an anchor whose (decoded) URL
  does not start, ignoring case, with \<open>http\<close>, \<open>https\<close> or \<open>ftp\<close> leaves the result of
  the parse as it was: neither the set of bookmark keys nor the total bookmark count
  changes, in both streaming scripts. Over a whole parse with the filter enabled, every
  key of the resulting set has a URL with an allowed prefix.
\<close>

theorem rejected_protocol_excluded:
  "(filter_enabled p \<and> current_url p = Some url
      \<and> \<not> allowed_protocol lower (if decode_enabled p then unquote url else url)
     \<longrightarrow> parse_result (handle_endtag unquote lower p (str ''a'')) = parse_result p
        \<and> parse_result (handle_endtag_multi unquote lower p (str ''a'')) = parse_result p)
   \<and> (\<forall>k\<in>fst (parse_bookmarks_file_fast unquote lower evs md True de).
         allowed_protocol lower (key_url k))
   \<and> (\<forall>k\<in>fst (parse_bookmarks_file_fast_multi unquote lower evs md True de).
         allowed_protocol lower (key_url k))"
proof -
  have init: "filter_enabled (init_parser md True de)"
    "\<forall>k\<in>set (bookmarks (init_parser md True de)). allowed_protocol lower (key_url k)"
    by (simp_all add: init_parser_def)
  show ?thesis
    using feed_allowed [OF init, where unquote = unquote and evs = evs]
      feed_multi_allowed [OF init, where unquote = unquote and evs = evs]
      end_anchor_rejected [of p url lower unquote]
    by (simp add: parse_bookmarks_file_fast_def parse_bookmarks_file_fast_multi_def
        parse_result_def handle_endtag_def handle_endtag_multi_def)
qed

theorem rejected_protocol_excluded_witness:
  "filter_enabled ((init_parser (str ''url'') True False)
      \<lparr>current_url := Some (str ''mailto:a@b.c'')\<rparr>)
   \<and> \<not> allowed_protocol (\<lambda>s. s) (str ''mailto:a@b.c'')
   \<and> parse_result (handle_endtag (\<lambda>s. s) (\<lambda>s. s)
         ((init_parser (str ''url'') True False)\<lparr>current_url := Some (str ''mailto:a@b.c'')\<rparr>)
         (str ''a''))
       = ({}, 0, {}, 0)
   \<and> parse_bookmarks_file_fast (\<lambda>s. s) (\<lambda>s. s)
        [StartTag (str ''a'') [(str ''href'', Some (str ''mailto:a@b.c''))], Data (str ''Mail''),
         EndTag (str ''a''),
         StartTag (str ''a'') [(str ''href'', Some (str ''http://x.com''))], Data (str ''X''),
         EndTag (str ''a'')]
        (str ''url'') True False
       = ({Url (str ''http://x.com'')}, 1, {}, 0)
   \<and> allowed_protocol (\<lambda>s. s) (str ''http://x.com'')"
  using rejected_protocol_excluded [of
      "(init_parser (str ''url'') True False)\<lparr>current_url := Some (str ''mailto:a@b.c'')\<rparr>"
      "str ''mailto:a@b.c''" "\<lambda>s. s" "\<lambda>s. s"
      "[StartTag (str ''a'') [(str ''href'', Some (str ''mailto:a@b.c''))], Data (str ''Mail''),
        EndTag (str ''a''),
        StartTag (str ''a'') [(str ''href'', Some (str ''http://x.com''))], Data (str ''X''),
        EndTag (str ''a'')]"
      "str ''url''" False]
  by (simp add: parse_bookmarks_file_fast_def parse_bookmarks_file_fast_multi_def
      parse_result_def feed_def feed_multi_def init_parser_def handle_starttag_def
      handle_data_def handle_endtag_def handle_endtag_multi_def end_anchor_def
      add_bookmark_def get_href_def allowed_http_x_com not_allowed_mailto str_lit Let_def)

text \<open>
  C9. Folder names of the multi-file streaming parser. After any sequence of parser
  events the folder set of the multi-file script does not contain the empty string.
  When the text collected for a heading trims to the empty string, \<open></h3>\<close> adds one
  to the folder counter in both scripts; the multi-file script leaves the folder set as
  it is and the two-file script inserts the empty string.
\<close>

theorem multi_folder_names_nonempty:
  "[] \<notin> fst (snd (snd (parse_bookmarks_file_fast_multi unquote lower evs md fe de)))
   \<and> (strip (current_folder p) = [] \<longrightarrow>
        total_folder_counter (handle_endtag_multi unquote lower p (str ''h3''))
          = total_folder_counter p + 1
        \<and> folders (handle_endtag_multi unquote lower p (str ''h3'')) = folders p
        \<and> total_folder_counter (handle_endtag unquote lower p (str ''h3''))
          = total_folder_counter p + 1
        \<and> folders (handle_endtag unquote lower p (str ''h3'')) = insert [] (folders p))"
  using feed_multi_folders [of "init_parser md fe de" unquote lower evs]
  by (simp add: parse_bookmarks_file_fast_multi_def parse_result_def init_parser_def
      handle_endtag_def handle_endtag_multi_def Let_def str_lit)

theorem multi_folder_names_nonempty_witness:
  "strip (current_folder ((init_parser (str ''url'') False False)
      \<lparr>current_folder := [0x20, 0x3000, 0xA0]\<rparr>)) = []
   \<and> folders (handle_endtag_multi (\<lambda>s. s) (\<lambda>s. s)
        ((init_parser (str ''url'') False False)\<lparr>current_folder := [0x20, 0x3000, 0xA0]\<rparr>)
        (str ''h3'')) = {}
   \<and> total_folder_counter (handle_endtag_multi (\<lambda>s. s) (\<lambda>s. s)
        ((init_parser (str ''url'') False False)\<lparr>current_folder := [0x20, 0x3000, 0xA0]\<rparr>)
        (str ''h3'')) = 1
   \<and> folders (handle_endtag (\<lambda>s. s) (\<lambda>s. s)
        ((init_parser (str ''url'') False False)\<lparr>current_folder := [0x20, 0x3000, 0xA0]\<rparr>)
        (str ''h3'')) = {[]}
   \<and> parse_bookmarks_file_fast_multi (\<lambda>s. s) (\<lambda>s. s)
        [StartTag (str ''h3'') [], Data [0x20, 0x3000, 0xA0], EndTag (str ''h3'')]
        (str ''url'') False False = ({}, 0, {}, 1)
   \<and> parse_bookmarks_file_fast (\<lambda>s. s) (\<lambda>s. s)
        [StartTag (str ''h3'') [], Data [0x20, 0x3000, 0xA0], EndTag (str ''h3'')]
        (str ''url'') False False = ({}, 0, {[]}, 1)"
  using multi_folder_names_nonempty [of "\<lambda>s. s" "\<lambda>s. s"
      "[StartTag (str ''h3'') [], Data [0x20, 0x3000, 0xA0], EndTag (str ''h3'')]"
      "str ''url''" False False
      "(init_parser (str ''url'') False False)\<lparr>current_folder := [0x20, 0x3000, 0xA0]\<rparr>"]
  by (simp add: parse_bookmarks_file_fast_def parse_bookmarks_file_fast_multi_def
      parse_result_def feed_def feed_multi_def init_parser_def handle_starttag_def
      handle_data_def handle_endtag_def handle_endtag_multi_def strip_blank str_lit Let_def)


section \<open>Anchors that are never closed\<close>

lemma dispatch_no_end_anchor:
  "EndTag (str ''a'') \<noteq> ev \<Longrightarrow> bookmarks (dispatch unquote lower p ev) = bookmarks p"
  "EndTag (str ''a'') \<noteq> ev \<Longrightarrow> bookmarks (dispatch_multi unquote lower p ev) = bookmarks p"
  by (cases ev; simp add: handle_starttag_def handle_data_def handle_endtag_def
      handle_endtag_multi_def Let_def)+

lemma feed_no_end_anchor:
  "EndTag (str ''a'') \<notin> set evs \<Longrightarrow> bookmarks (feed unquote lower p evs) = bookmarks p"
  unfolding feed_def
  by (induction evs arbitrary: p) (simp_all add: dispatch_no_end_anchor)

lemma feed_multi_no_end_anchor:
  "EndTag (str ''a'') \<notin> set evs \<Longrightarrow> bookmarks (feed_multi unquote lower p evs) = bookmarks p"
  unfolding feed_multi_def
  by (induction evs arbitrary: p) (simp_all add: dispatch_no_end_anchor)

lemma feed_append:
  "feed unquote lower p (evs @ evs') = feed unquote lower (feed unquote lower p evs) evs'"
  by (simp add: feed_def)

lemma feed_multi_append:
  "feed_multi unquote lower p (evs @ evs')
     = feed_multi unquote lower (feed_multi unquote lower p evs) evs'"
  by (simp add: feed_multi_def)

lemma rx_match_suffix:
  "suffix q its \<Longrightarrow> rx_match fl its s = Some (ms, rest) \<Longrightarrow>
     \<exists>t ms'. suffix t s \<and> rx_match fl q t = Some (ms', rest)"
proof (induction fl its s arbitrary: ms rule: rx_match.induct)
  case (1 fl s)
  then show ?case by auto
next
  case (2 fl r s)
  show ?case
  proof (cases "q = Mark # r")
    case True
    with 2 show ?thesis by blast
  next
    case False
    with 2 show ?thesis
      by (auto simp: suffix_Cons split: option.splits)
  qed
next
  case (3 fl c r)
  then show ?case by simp
next
  case (4 fl c r x xs)
  show ?case
  proof (cases "q = One c # r")
    case True
    with 4 show ?thesis by blast
  next
    case False
    with 4 have "suffix q r" and "cls_match fl c x" and "rx_match fl r xs = Some (ms, rest)"
      by (auto simp: suffix_Cons split: if_splits)
    with 4 obtain t ms' where "suffix t xs" "rx_match fl q t = Some (ms', rest)" by blast
    then show ?thesis by (meson suffix_ConsI)
  qed
next
  case (5 fl c r)
  show ?case
  proof (cases "q = Opt c # r")
    case True
    with 5 show ?thesis by blast
  next
    case False
    with 5 show ?thesis by (auto simp: suffix_Cons)
  qed
next
  case (6 fl c r x xs)
  show ?case
  proof (cases "q = Opt c # r")
    case True
    with 6 show ?thesis by blast
  next
    case False
    with 6 have q: "suffix q r" by (simp add: suffix_Cons)
    from 6 have "rx_match fl r xs = Some (ms, rest) \<and> cls_match fl c x
                 \<or> rx_match fl r (x # xs) = Some (ms, rest)"
      by (auto split: if_splits option.splits)
    then show ?thesis
    proof
      assume a: "rx_match fl r xs = Some (ms, rest) \<and> cls_match fl c x"
      with 6 q obtain t ms' where "suffix t xs" "rx_match fl q t = Some (ms', rest)" by blast
      then show ?thesis by (meson suffix_ConsI)
    next
      assume a: "rx_match fl r (x # xs) = Some (ms, rest)"
      show ?thesis
      proof (cases "cls_match fl c x")
        case True
        with a 6 have "rx_match fl r xs = None \<or> rx_match fl r xs = Some (ms, rest)"
          by (auto split: option.splits)
        then show ?thesis
        proof
          assume n: "rx_match fl r xs = None"
          from "6.IH"(2) [OF True n q a] show ?thesis .
        next
          assume s: "rx_match fl r xs = Some (ms, rest)"
          from "6.IH"(1) [OF True q s] show ?thesis by (meson suffix_ConsI)
        qed
      next
        case False
        from "6.IH"(3) [OF False q a] show ?thesis .
      qed
    qed
  qed
next
  case (7 fl c r)
  show ?case
  proof (cases "q = Star c # r")
    case True
    with 7 show ?thesis by blast
  next
    case False
    with 7 show ?thesis by (auto simp: suffix_Cons)
  qed
next
  case (8 fl c r x xs)
  show ?case
  proof (cases "q = Star c # r")
    case True
    with 8 show ?thesis by blast
  next
    case False
    with 8 have q: "suffix q r" by (simp add: suffix_Cons)
    have q': "suffix q (Star c # r)" using "8.prems"(1) .
    show ?thesis
    proof (cases "cls_match fl c x")
      case False
      with 8 have a: "rx_match fl r (x # xs) = Some (ms, rest)" by simp
      from "8.IH"(3) [OF False q a] show ?thesis .
    next
      case True
      show ?thesis
      proof (cases "rx_match fl (Star c # r) xs")
        case None
        with True 8 have a: "rx_match fl r (x # xs) = Some (ms, rest)" by simp
        from "8.IH"(2) [OF True None q a] show ?thesis .
      next
        case (Some m)
        with True 8 have a: "rx_match fl (Star c # r) xs = Some (ms, rest)" by simp
        from "8.IH"(1) [OF True q' a] show ?thesis by (meson suffix_ConsI)
      qed
    qed
  qed
next
  case (9 fl c r)
  then show ?case by simp
next
  case (10 fl c r x xs)
  show ?case
  proof (cases "q = Plus c # r")
    case True
    with 10 show ?thesis by blast
  next
    case False
    with 10 have q: "suffix q (Star c # r)" by (simp add: suffix_Cons)
    from 10 have c: "cls_match fl c x" and a: "rx_match fl (Star c # r) xs = Some (ms, rest)"
      by (auto split: if_splits)
    from "10.IH" [OF c q a] show ?thesis by (meson suffix_ConsI)
  qed
next
  case (11 fl c r)
  show ?case
  proof (cases "q = LazyStar c # r")
    case True
    with 11 show ?thesis by blast
  next
    case False
    with 11 show ?thesis by (auto simp: suffix_Cons)
  qed
next
  case (12 fl c r x xs)
  show ?case
  proof (cases "q = LazyStar c # r")
    case True
    with 12 show ?thesis by blast
  next
    case False
    with 12 have q: "suffix q r" by (simp add: suffix_Cons)
    have q': "suffix q (LazyStar c # r)" using "12.prems"(1) .
    show ?thesis
    proof (cases "rx_match fl r (x # xs)")
      case (Some m)
      with 12 have a: "rx_match fl r (x # xs) = Some (ms, rest)" by simp
      from "12.IH"(1) [OF q a] show ?thesis .
    next
      case None
      with 12 have c: "cls_match fl c x"
        and a: "rx_match fl (LazyStar c # r) xs = Some (ms, rest)"
        by (auto split: if_splits)
      from "12.IH"(2) [OF None c q' a] show ?thesis by (meson suffix_ConsI)
    qed
  qed
qed


lemma rx_match_append:
  assumes cl1: "\<And>i r. P (i # r) \<Longrightarrow> r = [] \<or> P r"
    and cl2: "\<And>c r. P (Plus c # r) \<Longrightarrow> P (Star c # r)"
  shows "(\<And>q. P q \<Longrightarrow> rx_match fl q tail = None) \<Longrightarrow>
     (\<And>q. P q \<Longrightarrow> rx_match fl q [] = None) \<Longrightarrow>
     its = [] \<or> P its \<Longrightarrow>
     rx_match fl its (s @ tail) =
       map_option (\<lambda>(ms, rest). (map (\<lambda>m. m @ tail) ms, rest @ tail)) (rx_match fl its s)"
proof (induction fl its s rule: rx_match.induct)
  case (1 fl s)
  show ?case by simp
next
  case (2 fl r s)
  from "2.prems"(3) have r: "r = [] \<or> P r" using cl1 by auto
  from "2.IH" [OF "2.prems"(1,2) r] show ?case by (auto split: option.splits)
next
  case (3 fl c r)
  then have p: "P (One c # r)" by simp
  from "3.prems"(1) [OF p] show ?case by simp
next
  case (4 fl c r x xs)
  from "4.prems"(3) have r: "r = [] \<or> P r" using cl1 by auto
  show ?case
  proof (cases "cls_match fl c x")
    case True
    from "4.IH" [OF True "4.prems"(1,2) r] True show ?thesis by simp
  next
    case False
    then show ?thesis by simp
  qed
next
  case (5 fl c r)
  then have p: "P (Opt c # r)" by simp
  from "5.prems"(1) [OF p] "5.prems"(2) [OF p] show ?case by simp
next
  case (6 fl c r x xs)
  from "6.prems"(3) have r: "r = [] \<or> P r" using cl1 by auto
  show ?case
  proof (cases "cls_match fl c x")
    case False
    from "6.IH"(3) [OF False "6.prems"(1,2) r] False show ?thesis by simp
  next
    case True
    note ih1 = "6.IH"(1) [OF True "6.prems"(1,2) r]
    show ?thesis
    proof (cases "rx_match fl r xs")
      case None
      from "6.IH"(2) [OF True None "6.prems"(1,2) r] True None ih1 show ?thesis by simp
    next
      case (Some m)
      with True ih1 show ?thesis by (cases m) simp
    qed
  qed
next
  case (7 fl c r)
  then have p: "P (Star c # r)" by simp
  from "7.prems"(1) [OF p] "7.prems"(2) [OF p] show ?case by simp
next
  case (8 fl c r x xs)
  from "8.prems"(3) have r: "r = [] \<or> P r" using cl1 by auto
  from "8.prems"(3) have s: "Star c # r = [] \<or> P (Star c # r)" by simp
  show ?case
  proof (cases "cls_match fl c x")
    case False
    from "8.IH"(3) [OF False "8.prems"(1,2) r] False show ?thesis by simp
  next
    case True
    note ih1 = "8.IH"(1) [OF True "8.prems"(1,2) s]
    show ?thesis
    proof (cases "rx_match fl (Star c # r) xs")
      case None
      from "8.IH"(2) [OF True None "8.prems"(1,2) r] True None ih1 show ?thesis by simp
    next
      case (Some m)
      with True ih1 show ?thesis by (cases m) simp
    qed
  qed
next
  case (9 fl c r)
  then have p: "P (Plus c # r)" by simp
  from "9.prems"(1) [OF p] show ?case by simp
next
  case (10 fl c r x xs)
  from "10.prems"(3) have s: "Star c # r = [] \<or> P (Star c # r)" using cl2 by simp
  show ?case
  proof (cases "cls_match fl c x")
    case True
    from "10.IH" [OF True "10.prems"(1,2) s] True show ?thesis by simp
  next
    case False
    then show ?thesis by simp
  qed
next
  case (11 fl c r)
  then have p: "P (LazyStar c # r)" by simp
  from "11.prems"(1) [OF p] "11.prems"(2) [OF p] show ?case by simp
next
  case (12 fl c r x xs)
  from "12.prems"(3) have r: "r = [] \<or> P r" using cl1 by auto
  from "12.prems"(3) have s: "LazyStar c # r = [] \<or> P (LazyStar c # r)" by simp
  note ih1 = "12.IH"(1) [OF "12.prems"(1,2) r]
  show ?case
  proof (cases "rx_match fl r (x # xs)")
    case (Some m)
    with ih1 show ?thesis by (cases m) simp
  next
    case None
    show ?thesis
    proof (cases "cls_match fl c x")
      case True
      from "12.IH"(2) [OF None True "12.prems"(1,2) s] None True ih1 show ?thesis by simp
    next
      case False
      with None ih1 show ?thesis by simp
    qed
  qed
qed

lemma captures_append: "captures (map (\<lambda>m. m @ tail) ms) = captures ms"
  by (induction ms rule: captures.induct) simp_all

lemma findall_from_no_match:
  "(\<And>t. suffix t s \<Longrightarrow> rx_match fl pat t = None) \<Longrightarrow> findall_from fl pat k s = []"
proof (induction fl pat k s rule: findall_from.induct)
  case (1 fl pat skip)
  show ?case by simp
next
  case (2 fl pat skip x xs)
  then show ?case by (simp add: suffix_ConsI)
next
  case (3 fl pat x xs)
  have n: "rx_match fl pat (x # xs) = None" by (rule "3.prems") simp
  have "findall_from fl pat 0 xs = []"
    by (rule "3.IH"(1) [OF n]) (simp add: "3.prems" suffix_ConsI)
  with n show ?case by simp
qed

lemma findall_from_append:
  "(\<And>t. suffix t s \<Longrightarrow>
      rx_match fl pat (t @ tail) =
        map_option (\<lambda>(ms, rest). (map (\<lambda>m. m @ tail) ms, rest @ tail)) (rx_match fl pat t)) \<Longrightarrow>
   (\<And>t. suffix t tail \<Longrightarrow> rx_match fl pat t = None) \<Longrightarrow>
   findall_from fl pat k (s @ tail) = findall_from fl pat k s"
proof (induction fl pat k s rule: findall_from.induct)
  case (1 fl pat skip)
  have "findall_from fl pat skip tail = []"
    by (rule findall_from_no_match) (rule "1.prems"(2))
  then show ?case by simp
next
  case (2 fl pat skip x xs)
  have "findall_from fl pat skip (xs @ tail) = findall_from fl pat skip xs"
    by (rule "2.IH") (simp_all add: "2.prems" suffix_ConsI)
  then show ?case by simp
next
  case (3 fl pat x xs)
  have e: "rx_match fl pat ((x # xs) @ tail) =
        map_option (\<lambda>(ms, rest). (map (\<lambda>m. m @ tail) ms, rest @ tail))
          (rx_match fl pat (x # xs))"
    by (rule "3.prems"(1)) simp
  show ?case
  proof (cases "rx_match fl pat (x # xs)")
    case None
    have "findall_from fl pat 0 (xs @ tail) = findall_from fl pat 0 xs"
      by (rule "3.IH"(1) [OF None]) (simp_all add: "3.prems" suffix_ConsI)
    with e None show ?thesis by simp
  next
    case (Some m)
    obtain ms rest where m: "m = (ms, rest)" by (cases m)
    have "findall_from fl pat (length xs - length rest) (xs @ tail)
            = findall_from fl pat (length xs - length rest) xs"
      by (rule "3.IH"(2) [OF Some m [symmetric]]) (simp_all add: "3.prems" suffix_ConsI)
    with e Some m show ?thesis
      by (simp add: captures_append)
  qed
qed

lemma findall_from_empty:
  "findall_from fl pat 0 s = [] \<Longrightarrow> suffix t s \<Longrightarrow> t \<noteq> [] \<Longrightarrow> rx_match fl pat t = None"
proof (induction s)
  case Nil
  then show ?case by simp
next
  case (Cons x xs)
  from Cons.prems(1) have n: "rx_match fl pat (x # xs) = None"
    and r: "findall_from fl pat 0 xs = []"
    by (auto split: option.splits)
  from Cons.prems(2) have "t = x # xs \<or> suffix t xs" by (simp add: suffix_Cons)
  with n r Cons.IH Cons.prems(3) show ?case by auto
qed


lemma close_tag_lits:
  "lits (str ''</a>'') =
     [One (Lit (cp CHR ''<'')), One (Lit (cp CHR ''/'')), One (Lit (cp CHR ''a'')),
      One (Lit (cp CHR ''>''))]"
  by (simp add: lits_def str_Cons str_Nil)

lemma close_tag_step:
  assumes "suffix (lits (str ''</a>'')) (i # r) \<or> (i # r \<noteq> [] \<and> suffix (i # r) (lits (str ''</a>'')))"
  shows "r = [] \<or> suffix (lits (str ''</a>'')) r \<or> (r \<noteq> [] \<and> suffix r (lits (str ''</a>'')))"
  using assms by (auto simp: suffix_Cons dest: suffix_ConsD)

lemma close_tag_plus:
  assumes "suffix (lits (str ''</a>'')) (Plus c # r)
           \<or> (Plus c # r \<noteq> [] \<and> suffix (Plus c # r) (lits (str ''</a>'')))"
  shows "suffix (lits (str ''</a>'')) (Star c # r)
         \<or> (Star c # r \<noteq> [] \<and> suffix (Star c # r) (lits (str ''</a>'')))"
  using assms by (auto simp: close_tag_lits suffix_Cons)

lemma close_tag_at_end:
  assumes "suffix (lits (str ''</a>'')) q \<or> (q \<noteq> [] \<and> suffix q (lits (str ''</a>'')))"
  shows "rx_match fl q [] = None"
proof (rule ccontr)
  assume "rx_match fl q [] \<noteq> None"
  then obtain ms rest where m: "rx_match fl q [] = Some (ms, rest)" by auto
  from assms show False
  proof
    assume "suffix (lits (str ''</a>'')) q"
    from rx_match_suffix [OF this m] show False
      by (auto simp: close_tag_lits)
  next
    assume "q \<noteq> [] \<and> suffix q (lits (str ''</a>''))"
    with m show False
      by (auto simp: close_tag_lits suffix_Cons)
  qed
qed

lemma no_close_tag_inside:
  assumes "findall IGNORECASE (lits (str ''</a>'')) tail = []"
    and "suffix (lits (str ''</a>'')) q" and "suffix t tail"
  shows "rx_match IGNORECASE q t = None"
proof (rule ccontr)
  assume "rx_match IGNORECASE q t \<noteq> None"
  then obtain ms rest where m: "rx_match IGNORECASE q t = Some (ms, rest)" by auto
  from rx_match_suffix [OF assms(2) m]
  obtain t' ms' where t': "suffix t' t"
    and l: "rx_match IGNORECASE (lits (str ''</a>'')) t' = Some (ms', rest)"
    by blast
  from l have "t' \<noteq> []" by (auto simp: close_tag_lits)
  moreover from t' assms(3) have "suffix t' tail" by (rule suffix_order.trans)
  ultimately have "rx_match IGNORECASE (lits (str ''</a>'')) t' = None"
    using assms(1) findall_from_empty unfolding findall_def by blast
  with l show False by simp
qed

lemma no_close_tag_at_open:
  assumes "findall IGNORECASE (lits (str ''</a>'')) (cp CHR ''<'' # u) = []"
    and "suffix (lits (str ''</a>'')) q \<or> (q \<noteq> [] \<and> suffix q (lits (str ''</a>'')))"
  shows "rx_match IGNORECASE q (cp CHR ''<'' # u) = None"
  using assms(2)
proof
  assume "suffix (lits (str ''</a>'')) q"
  from no_close_tag_inside [OF assms(1) this] show ?thesis by simp
next
  assume q: "q \<noteq> [] \<and> suffix q (lits (str ''</a>''))"
  then have "q = lits (str ''</a>'') \<or> q = [One (Lit (cp CHR ''/'')), One (Lit (cp CHR ''a'')),
      One (Lit (cp CHR ''>''))] \<or> q = [One (Lit (cp CHR ''a'')), One (Lit (cp CHR ''>''))]
      \<or> q = [One (Lit (cp CHR ''>''))]"
    by (auto simp: close_tag_lits suffix_Cons)
  then show ?thesis
  proof (elim disjE)
    assume "q = lits (str ''</a>'')"
    then have "suffix (lits (str ''</a>'')) q" by simp
    from no_close_tag_inside [OF assms(1) this] show ?thesis by simp
  qed (simp_all add: IGNORECASE_def re_fold_def cp_def)
qed

lemma bookmark_pattern_close: "suffix (lits (str ''</a>'')) bookmark_pattern"
  unfolding bookmark_pattern_def by (metis append.assoc suffixI)

lemma unclosed_tail_findall:
  assumes "findall IGNORECASE (lits (str ''</a>'')) (cp CHR ''<'' # u) = []"
  shows "findall IGNORECASE bookmark_pattern (pre @ cp CHR ''<'' # u)
           = findall IGNORECASE bookmark_pattern pre"
  unfolding findall_def
proof (rule findall_from_append)
  fix t
  let ?P = "\<lambda>q. suffix (lits (str ''</a>'')) q \<or> (q \<noteq> [] \<and> suffix q (lits (str ''</a>'')))"
  show "rx_match IGNORECASE bookmark_pattern (t @ cp CHR ''<'' # u) =
      map_option (\<lambda>(ms, rest). (map (\<lambda>m. m @ cp CHR ''<'' # u) ms, rest @ cp CHR ''<'' # u))
        (rx_match IGNORECASE bookmark_pattern t)"
  proof (rule rx_match_append [where P = ?P])
    fix i r
    assume "?P (i # r)"
    then show "r = [] \<or> ?P r" by (rule close_tag_step)
  next
    fix c r
    assume "?P (Plus c # r)"
    then show "?P (Star c # r)" by (rule close_tag_plus)
  next
    fix q
    assume "?P q"
    then show "rx_match IGNORECASE q (cp CHR ''<'' # u) = None"
      by (rule no_close_tag_at_open [OF assms])
  next
    fix q
    assume "?P q"
    then show "rx_match IGNORECASE q [] = None" by (rule close_tag_at_end)
  next
    show "bookmark_pattern = [] \<or> ?P bookmark_pattern"
      using bookmark_pattern_close by simp
  qed
next
  fix t
  assume "suffix t (cp CHR ''<'' # u)"
  with no_close_tag_inside [OF assms bookmark_pattern_close]
  show "rx_match IGNORECASE bookmark_pattern t = None" by simp
qed

lemma unclosed_tail_bookmarks:
  "findall IGNORECASE (lits (str ''</a>'')) (cp CHR ''<'' # u) = [] \<Longrightarrow>
     fst (parse_bookmarks_file (pre @ cp CHR ''<'' # u) (str ''url-title''))
       = fst (parse_bookmarks_file pre (str ''url-title''))"
  by (simp add: parse_bookmarks_file_def unclosed_tail_findall str_lit)

lemma scenario_text:
  "str ''<a href='' @ [0x22] @ str ''y'' @ [0x22] @ str ''>Y</a>'' @ cp CHR ''<'' #
     (str ''a href='' @ [0x22] @ str ''x'' @ [0x22] @ str ''>T'')
   = [60, 97, 32, 104, 114, 101, 102, 61, 34, 121, 34, 62, 89, 60, 47, 97, 62,
      60, 97, 32, 104, 114, 101, 102, 61, 34, 120, 34, 62, 84]"
  "cp CHR ''<'' # (str ''a href='' @ [0x22] @ str ''x'' @ [0x22] @ str ''>T'')
   = [60, 97, 32, 104, 114, 101, 102, 61, 34, 120, 34, 62, 84]"
  "str ''<a href='' @ [0x22] @ str ''y'' @ [0x22] @ str ''>Y</a>''
   = [60, 97, 32, 104, 114, 101, 102, 61, 34, 121, 34, 62, 89, 60, 47, 97, 62]"
  by (simp_all add: str_def cp_def)

lemma scenario_no_close:
  "findall IGNORECASE (lits (str ''</a>''))
     [60, 97, 32, 104, 114, 101, 102, 61, 34, 120, 34, 62, 84] = []"
  by (simp add: findall_def close_tag_lits cp_def IGNORECASE_def re_fold_def)

lemma scenario_closed_part:
  "findall IGNORECASE bookmark_pattern
     [60, 97, 32, 104, 114, 101, 102, 61, 34, 121, 34, 62, 89, 60, 47, 97, 62]
   = [[[121], [89]]]"
  by (simp add: findall_def bookmark_pattern_def lits_def str_def cp_def quote_class_def
      IGNORECASE_def re_fold_def isspace_def)

lemma scenario_clean: "clean [89] = [89]"
  by (simp add: clean_def re_sub_empty_def tag_pattern_def strip_def isspace_def no_flags_def
      cp_def)

text \<open>
  C8. An anchor that is opened and not closed before the end of the input. In the
  streaming parsers, in every mode and from every parser state, input that brings no
  \<open></a>\<close> adds no bookmark, whatever else follows the open anchor: the key set and
  the bookmark count of the parse are those of the input before it. In the
  regular-expression parser of compare\_bookmarks.py, mode \<open>url-title\<close>, a text that ends
  in a part which starts with \<open><\<close> and contains no \<open></a>\<close> in any case yields the
  bookmarks of the text before that part.
\<close>

theorem unclosed_anchor_yields_no_entry:
  "(EndTag (str ''a'') \<notin> set rest \<longrightarrow>
      bookmarks (feed unquote lower p rest) = bookmarks p
      \<and> bookmarks (feed_multi unquote lower p rest) = bookmarks p
      \<and> fst (parse_bookmarks_file_fast unquote lower (evs @ rest) md fe de)
          = fst (parse_bookmarks_file_fast unquote lower evs md fe de)
      \<and> fst (snd (parse_bookmarks_file_fast unquote lower (evs @ rest) md fe de))
          = fst (snd (parse_bookmarks_file_fast unquote lower evs md fe de))
      \<and> fst (parse_bookmarks_file_fast_multi unquote lower (evs @ rest) md fe de)
          = fst (parse_bookmarks_file_fast_multi unquote lower evs md fe de)
      \<and> fst (snd (parse_bookmarks_file_fast_multi unquote lower (evs @ rest) md fe de))
          = fst (snd (parse_bookmarks_file_fast_multi unquote lower evs md fe de)))
   \<and> (findall IGNORECASE (lits (str ''</a>'')) (cp CHR ''<'' # u) = [] \<longrightarrow>
        fst (parse_bookmarks_file (pre @ cp CHR ''<'' # u) (str ''url-title''))
          = fst (parse_bookmarks_file pre (str ''url-title'')))"
  by (simp add: feed_no_end_anchor feed_multi_no_end_anchor unclosed_tail_bookmarks
      feed_append feed_multi_append
      parse_bookmarks_file_fast_def parse_bookmarks_file_fast_multi_def parse_result_def)

theorem unclosed_anchor_yields_no_entry_witness:
  "EndTag (str ''a'') \<notin> set [StartTag (str ''a'') [(str ''href'', Some (str ''http://x.com''))],
       Data (str ''Title''), StartTag (str ''b'') [], EndTag (str ''dl'')]
   \<and> parse_bookmarks_file_fast (\<lambda>s. s) (\<lambda>s. s)
        ([] @ [StartTag (str ''a'') [(str ''href'', Some (str ''http://x.com''))],
               Data (str ''Title''), StartTag (str ''b'') [], EndTag (str ''dl'')])
        (str ''url'') False False
       = ({}, 0, {}, 0)
   \<and> findall IGNORECASE (lits (str ''</a>''))
        (cp CHR ''<'' # (str ''a href='' @ [0x22] @ str ''x'' @ [0x22] @ str ''>T'')) = []
   \<and> fst (parse_bookmarks_file
        (str ''<a href='' @ [0x22] @ str ''y'' @ [0x22] @ str ''>Y</a>'' @ cp CHR ''<'' #
           (str ''a href='' @ [0x22] @ str ''x'' @ [0x22] @ str ''>T''))
        (str ''url-title''))
       = {UrlTitle (str ''y'') (str ''Y'')}"
proof -
  have y: "str ''y'' = [121]" "str ''Y'' = [89]" by (simp_all add: str_def cp_def)
  have h: "findall IGNORECASE (lits (str ''</a>''))
        (cp CHR ''<'' # (str ''a href='' @ [0x22] @ str ''x'' @ [0x22] @ str ''>T'')) = []"
    by (simp only: scenario_text scenario_no_close)
  have e: "EndTag (str ''a'') \<notin> set [StartTag (str ''a'') [(str ''href'', Some (str ''http://x.com''))],
       Data (str ''Title''), StartTag (str ''b'') [], EndTag (str ''dl'')]"
    by (simp add: str_lit)
  have pre: "fst (parse_bookmarks_file
        (str ''<a href='' @ [0x22] @ str ''y'' @ [0x22] @ str ''>Y</a>'') (str ''url-title''))
      = {UrlTitle (str ''y'') (str ''Y'')}"
    unfolding scenario_text
    by (simp add: parse_bookmarks_file_def scenario_closed_part scenario_clean str_lit y)
  from unclosed_anchor_yields_no_entry [of
      "[StartTag (str ''a'') [(str ''href'', Some (str ''http://x.com''))],
        Data (str ''Title''), StartTag (str ''b'') [], EndTag (str ''dl'')]"
      "\<lambda>s. s" "\<lambda>s. s" "init_parser (str ''url'') False False" "[]" "str ''url''" False False
      "str ''a href='' @ [0x22] @ str ''x'' @ [0x22] @ str ''>T''"
      "str ''<a href='' @ [0x22] @ str ''y'' @ [0x22] @ str ''>Y</a>''"]
    e h pre
  show ?thesis
    by (simp add: parse_bookmarks_file_fast_def parse_result_def feed_def init_parser_def
        handle_starttag_def handle_data_def handle_endtag_def get_href_def str_lit)
qed

text \<open>
  In mode \<open>url\<close> the regular-expression parser matches the start tag alone: the text
  \<open><a href="http://x.com">Title\<close> with no \<open></a>\<close> yields the bookmark
  \<open>http://x.com\<close>.
\<close>

theorem unclosed_anchor_url_mode_counterexample:
  "fst (parse_bookmarks_file
        (str ''<a href='' @ [0x22] @ str ''http://x.com'' @ [0x22] @ str ''>Title'') (str ''url''))
     = {Url (str ''http://x.com'')}"
  by (simp add: parse_bookmarks_file_def findall_def url_pattern_def folder_pattern_def lits_def
      IGNORECASE_def quote_class_def re_fold_def isspace_def str_def cp_def)


section \<open>Properties of the intersection\<close>

lemma foldl_inter: "foldl (\<lambda>common d. common \<inter> f d) A ds = A \<inter> \<Inter>(f ` set ds)"
  by (induction ds arbitrary: A) auto

lemma foldl_inter_plain: "foldl (\<inter>) A ds = A \<inter> \<Inter>(set ds)"
  by (induction ds arbitrary: A) auto

lemma analyze_intersection_eq:
  "analyze_intersection all_data =
     (if length all_data < 2 then None
      else Some (\<Inter>(b_set ` set all_data), \<Inter>(f_set ` set all_data)))"
  by (cases all_data) (simp_all add: analyze_intersection_def foldl_inter)

lemma set_intersection_eq:
  "set_intersection sets = (if sets = [] then None else Some (\<Inter>(set sets)))"
  by (cases sets) (simp_all add: set_intersection_def foldl_inter_plain)

lemma common_items_eq:
  "common_items all_data =
     (if all_data = [] then None
      else Some (\<Inter>(fst ` set all_data), \<Inter>(snd ` set all_data)))"
  by (simp add: common_items_def set_intersection_eq)

text \<open>
  C7. Order independence of the intersection. In both multi-file scripts the common
  bookmarks and folders of a list of collections are the same for every permutation
  of the list; for two or more collections (one or more in compare\_multi\_bookmarks.py)
  they are the intersection of all the sets; and intersecting \<open>A\<close> with the result for
  \<open>[B, C]\<close> gives the result for \<open>[A, B, C]\<close>.
\<close>

theorem intersection_order_independent:
  "(mset xs = mset ys \<longrightarrow> analyze_intersection xs = analyze_intersection ys)
   \<and> (2 \<le> length xs \<longrightarrow>
        analyze_intersection xs = Some (\<Inter>(b_set ` set xs), \<Inter>(f_set ` set xs)))
   \<and> (case analyze_intersection [B, C] of
         None \<Rightarrow> None
       | Some r \<Rightarrow> analyze_intersection [A, as_collection r])
       = analyze_intersection [A, B, C]
   \<and> (mset as = mset bs \<longrightarrow> common_items as = common_items bs)
   \<and> (as \<noteq> [] \<longrightarrow> common_items as = Some (\<Inter>(fst ` set as), \<Inter>(snd ` set as)))
   \<and> (case common_items [b, c] of
         None \<Rightarrow> None
       | Some r \<Rightarrow> common_items [a, r])
       = common_items [a, b, c]"
proof -
  have 1: "mset xs = mset ys \<longrightarrow> analyze_intersection xs = analyze_intersection ys"
    using mset_eq_setD [of xs ys] mset_eq_length [of xs ys]
    by (simp add: analyze_intersection_eq)
  have 2: "mset as = mset bs \<longrightarrow> common_items as = common_items bs"
    using mset_eq_setD [of as bs] mset_eq_length [of as bs]
    by (auto simp: common_items_eq)
  have 3: "(case analyze_intersection [B, C] of
         None \<Rightarrow> None
       | Some r \<Rightarrow> analyze_intersection [A, as_collection r])
       = analyze_intersection [A, B, C]"
    by (simp add: analyze_intersection_eq as_collection_def)
  have 4: "(case common_items [b, c] of
         None \<Rightarrow> None
       | Some r \<Rightarrow> common_items [a, r])
       = common_items [a, b, c]"
    by (simp add: common_items_eq)
  from 1 2 3 4 show ?thesis
    by (simp add: analyze_intersection_eq common_items_eq)
qed

theorem intersection_order_independent_witness:
  "mset [\<lparr>b_set = {Url (str ''http://a.com''), Url (str ''http://b.com'')}, b_total = 2,
           f_set = {(str ''Work''), (str ''Personal'')}, f_total = 2\<rparr>,
         \<lparr>b_set = {Url (str ''http://a.com''), Url (str ''http://c.com'')}, b_total = 2,
           f_set = {(str ''Work''), (str ''Travel'')}, f_total = 2\<rparr>,
         \<lparr>b_set = {Url (str ''http://a.com'')}, b_total = 3, f_set = {(str ''Work'')}, f_total = 1\<rparr>]
     = mset [\<lparr>b_set = {Url (str ''http://a.com'')}, b_total = 3, f_set = {(str ''Work'')}, f_total = 1\<rparr>,
         \<lparr>b_set = {Url (str ''http://a.com''), Url (str ''http://c.com'')}, b_total = 2,
           f_set = {(str ''Work''), (str ''Travel'')}, f_total = 2\<rparr>,
         \<lparr>b_set = {Url (str ''http://a.com''), Url (str ''http://b.com'')}, b_total = 2,
           f_set = {(str ''Work''), (str ''Personal'')}, f_total = 2\<rparr>]
   \<and> analyze_intersection
        [\<lparr>b_set = {Url (str ''http://a.com'')}, b_total = 3, f_set = {(str ''Work'')}, f_total = 1\<rparr>,
         \<lparr>b_set = {Url (str ''http://a.com''), Url (str ''http://c.com'')}, b_total = 2,
           f_set = {(str ''Work''), (str ''Travel'')}, f_total = 2\<rparr>,
         \<lparr>b_set = {Url (str ''http://a.com''), Url (str ''http://b.com'')}, b_total = 2,
           f_set = {(str ''Work''), (str ''Personal'')}, f_total = 2\<rparr>]
     = Some ({Url (str ''http://a.com'')}, {(str ''Work'')})
   \<and> mset [({Url (str ''http://a.com''), Url (str ''http://b.com'')}, {(str ''Work''), (str ''Personal'')}),
           ({Url (str ''http://a.com'')}, {(str ''Work''), (str ''Travel'')})]
     = mset [({Url (str ''http://a.com'')}, {(str ''Work''), (str ''Travel'')}),
           ({Url (str ''http://a.com''), Url (str ''http://b.com'')}, {(str ''Work''), (str ''Personal'')})]
   \<and> common_items [({Url (str ''http://a.com'')}, {(str ''Work''), (str ''Travel'')}),
           ({Url (str ''http://a.com''), Url (str ''http://b.com'')}, {(str ''Work''), (str ''Personal'')})]
     = Some ({Url (str ''http://a.com'')}, {(str ''Work'')})"
  using intersection_order_independent [of
      "[\<lparr>b_set = {Url (str ''http://a.com''), Url (str ''http://b.com'')}, b_total = 2,
           f_set = {(str ''Work''), (str ''Personal'')}, f_total = 2\<rparr>,
         \<lparr>b_set = {Url (str ''http://a.com''), Url (str ''http://c.com'')}, b_total = 2,
           f_set = {(str ''Work''), (str ''Travel'')}, f_total = 2\<rparr>,
         \<lparr>b_set = {Url (str ''http://a.com'')}, b_total = 3, f_set = {(str ''Work'')}, f_total = 1\<rparr>]"
      "[\<lparr>b_set = {Url (str ''http://a.com'')}, b_total = 3, f_set = {(str ''Work'')}, f_total = 1\<rparr>,
         \<lparr>b_set = {Url (str ''http://a.com''), Url (str ''http://c.com'')}, b_total = 2,
           f_set = {(str ''Work''), (str ''Travel'')}, f_total = 2\<rparr>,
         \<lparr>b_set = {Url (str ''http://a.com''), Url (str ''http://b.com'')}, b_total = 2,
           f_set = {(str ''Work''), (str ''Personal'')}, f_total = 2\<rparr>]"
      _ _ _
      "[({Url (str ''http://a.com''), Url (str ''http://b.com'')}, {(str ''Work''), (str ''Personal'')}),
           ({Url (str ''http://a.com'')}, {(str ''Work''), (str ''Travel'')})]"
      "[({Url (str ''http://a.com'')}, {(str ''Work''), (str ''Travel'')}),
           ({Url (str ''http://a.com''), Url (str ''http://b.com'')}, {(str ''Work''), (str ''Personal'')})]"]
  by (simp add: analyze_intersection_def common_items_def set_intersection_def str_lit)

end
